theory Spec2Isabelle
  imports Complex_Main "HOL-Library.AList"
begin

section \<open>The data node of the A2D2 data service: dispatcher state\<close>

text \<open>
  The development follows \<^verbatim>\<open>a2d2/src/ros_data_node.py\<close>, class \<^verbatim>\<open>RosDataNode\<close>.
  A Python dict is an association list in insertion order (\<open>map_of\<close> looks a key up,
  \<open>AList.update\<close> stores a value and keeps the position of an existing key); a missing
  key raises \<^verbatim>\<open>KeyError\<close>, which is a value of the model. A method that mutates
  \<^verbatim>\<open>self\<close> takes the node and gives the node back, also when it raises: Python does
  not undo the mutations made before an exception, so \<open>Raises\<close> carries the node too.
  \<open>Failure\<close> stands for any other exception that a collaborator of the node raises.
\<close>

datatype error = KeyError | IndexError | AttributeError | NameError | Failure

datatype ('a, 's) outcome = Returns 'a 's | Raises error 's

type_synonym sensor = string

text \<open>
  The request document, with the fields the node reads: \<^verbatim>\<open>request['sensor_id']\<close>,
  \<^verbatim>\<open>request['data_type']\<close>, \<^verbatim>\<open>request['preview']\<close> (\<open>None\<close> when the key is
  absent), and the optional keys \<^verbatim>\<open>image\<close> and \<^verbatim>\<open>lidar_view\<close>, read with
  \<^verbatim>\<open>request.get\<close> (\<open>None\<close> when the key is absent, so that the default applies).
\<close>

record request =
  sensor_id :: "sensor list"
  data_type :: "(sensor \<times> string) list"
  preview :: "bool option"
  image_request :: "string option"
  lidar_view :: "string option"

definition BUS_DATA_TYPE :: string where
  "BUS_DATA_TYPE = ''a2d2_msgs/Bus''"

text \<open>
  What a publisher was handed: the dispatcher publishes the popped queue element itself,
  the flusher publishes the \<^verbatim>\<open>msg\<close> attribute of the popped element.
\<close>

datatype ('m, 'v) sent = Element 'm | Attribute 'v

text \<open>
  The fields of \<^verbatim>\<open>self\<close> that the dispatcher and the flusher use. \<open>ros_publishers\<close>
  holds the keys of the dict of publishers; \<open>sink\<close> is the sequence of
  \<^verbatim>\<open>publish\<close> calls made so far, each with the sensor whose publisher was called.
  A queue element is a ROS message object of type \<open>'m\<close>.
\<close>

record ('m, 'v) node =
  request :: request
  sensor_dict :: "(sensor \<times> 'm list) list"
  sensor_list :: "sensor list"
  sensor_active :: "(sensor \<times> bool) list"
  sensor_index :: nat
  round_robin :: "sensor list"
  ros_publishers :: "sensor list"
  sink :: "(sensor \<times> ('m, 'v) sent) list"

subsection \<open>\<^verbatim>\<open>init_request\<close>\<close>

text \<open>
  One iteration of the loop over \<^verbatim>\<open>request['sensor_id']\<close> gives the sensor an empty
  queue, a place at the end of the sensor list and a true active flag. (The manifest that
  the same iteration opens is handed to the worker of the sensor; it is not part of the
  dispatcher state.)
\<close>

definition add_sensor :: "('m, 'v) node \<Rightarrow> sensor \<Rightarrow> ('m, 'v) node" where
  "add_sensor st s =
     st\<lparr>sensor_dict := AList.update s [] (sensor_dict st),
        sensor_list := sensor_list st @ [s],
        sensor_active := AList.update s True (sensor_active st)\<rparr>"

definition init_request :: "request \<Rightarrow> ('m, 'v) node" where
  "init_request req =
     foldl add_sensor
       \<lparr>request = req, sensor_dict = [], sensor_list = [], sensor_active = [],
        sensor_index = 0, round_robin = [], ros_publishers = [], sink = []\<rparr>
       (sensor_id req)"

subsection \<open>\<^verbatim>\<open>__is_sensor_alive\<close> and \<^verbatim>\<open>__is_bus_sensor\<close>\<close>

definition is_sensor_alive :: "('m, 'v) node \<Rightarrow> sensor \<Rightarrow> error + bool" where
  "is_sensor_alive st k =
     (case map_of (sensor_dict st) k of
        None \<Rightarrow> Inl KeyError
      | Some q \<Rightarrow>
          if q \<noteq> [] then Inr True
          else (case map_of (sensor_active st) k of
                  None \<Rightarrow> Inl KeyError
                | Some a \<Rightarrow> Inr a))"

definition is_bus_sensor :: "('m, 'v) node \<Rightarrow> sensor \<Rightarrow> error + bool" where
  "is_bus_sensor st k =
     (case map_of (data_type (request st)) k of
        None \<Rightarrow> Inl KeyError
      | Some t \<Rightarrow> Inr (t = BUS_DATA_TYPE))"

subsection \<open>\<^verbatim>\<open>__round_robin_sensor\<close>\<close>

text \<open>
  The list comprehension of the skip test,
  \<^verbatim>\<open>[True for k in self.sensor_active.keys() if k not in self.round_robin and self.__is_sensor_alive(k)]\<close>:
  it is built in full before \<^verbatim>\<open>any\<close> reads it, so a \<^verbatim>\<open>KeyError\<close> at any key escapes.
\<close>

fun waiting :: "('m, 'v) node \<Rightarrow> sensor list \<Rightarrow> error + bool list" where
  "waiting st [] = Inr []"
| "waiting st (k # ks) =
     (if k \<in> set (round_robin st) then waiting st ks
      else (case is_sensor_alive st k of
              Inl e \<Rightarrow> Inl e
            | Inr a \<Rightarrow>
                (case waiting st ks of
                   Inl e \<Rightarrow> Inl e
                 | Inr bs \<Rightarrow> Inr (if a then True # bs else bs))))"

text \<open>
  The condition of the \<^verbatim>\<open>continue\<close>:
  \<^verbatim>\<open>_sensor in self.round_robin and any([...])\<close>; \<^verbatim>\<open>and\<close> does not evaluate the
  comprehension when the candidate is not in \<^verbatim>\<open>round_robin\<close>.
\<close>

definition skip_test :: "('m, 'v) node \<Rightarrow> sensor \<Rightarrow> error + bool" where
  "skip_test st c =
     (if c \<in> set (round_robin st)
      then (case waiting st (map fst (sensor_active st)) of
              Inl e \<Rightarrow> Inl e
            | Inr bs \<Rightarrow> Inr (True \<in> set bs))
      else Inr False)"

text \<open>
  One iteration of the \<^verbatim>\<open>for\<close> loop: the cursor moves, then the candidate is skipped,
  found empty (\<open>Returns None\<close>: the loop goes on) or popped (\<open>Returns (Some ...)\<close>: the
  \<^verbatim>\<open>break\<close>). The loop runs only when the list is non-empty, so the modulus is positive
  and the index is in range.
\<close>

definition scan_body :: "('m, 'v) node \<Rightarrow> ((sensor \<times> 'm) option, ('m, 'v) node) outcome" where
  "scan_body st =
     (let st1 = st\<lparr>sensor_index := (sensor_index st + 1) mod length (sensor_list st)\<rparr>;
          c = sensor_list st1 ! sensor_index st1
      in case skip_test st1 c of
           Inl e \<Rightarrow> Raises e st1
         | Inr True \<Rightarrow> Returns None st1
         | Inr False \<Rightarrow>
             (case map_of (sensor_dict st1) c of
                None \<Rightarrow> Raises KeyError st1
              | Some [] \<Rightarrow> Returns None st1
              | Some (m # q) \<Rightarrow>
                  Returns (Some (c, m))
                    (st1\<lparr>sensor_dict := AList.update c q (sensor_dict st1)\<rparr>)))"

fun scan :: "nat \<Rightarrow> ('m, 'v) node \<Rightarrow> ((sensor \<times> 'm) option, ('m, 'v) node) outcome" where
  "scan 0 st = Returns None st"
| "scan (Suc k) st =
     (case scan_body st of
        Raises e st1 \<Rightarrow> Raises e st1
      | Returns (Some found) st1 \<Rightarrow> Returns (Some found) st1
      | Returns None st1 \<Rightarrow> scan k st1)"

text \<open>
  The method appends the message to the queue of the submitting sensor, then scans once
  round the sensor list. The pair it returns is \<^verbatim>\<open>(None, None)\<close> or a sensor with the
  message popped from its queue.
\<close>

definition round_robin_sensor ::
  "('m, 'v) node \<Rightarrow> sensor \<Rightarrow> 'm \<Rightarrow> ((sensor \<times> 'm) option, ('m, 'v) node) outcome" where
  "round_robin_sensor st s msg =
     (case map_of (sensor_dict st) s of
        None \<Rightarrow> Raises KeyError st
      | Some q \<Rightarrow>
          scan (length (sensor_list st))
            (st\<lparr>sensor_dict := AList.update s (q @ [msg]) (sensor_dict st)\<rparr>))"

subsection \<open>\<^verbatim>\<open>__publish_ros_msg\<close>\<close>

text \<open>
  \<^verbatim>\<open>self.ros_publishers[sensor].publish(msg)\<close>: a \<^verbatim>\<open>KeyError\<close> when the sensor has no
  publisher, one more entry of the sink otherwise.
\<close>

definition publish :: "('m, 'v) node \<Rightarrow> sensor \<Rightarrow> ('m, 'v) sent \<Rightarrow> error + ('m, 'v) node" where
  "publish st s x =
     (if s \<in> set (ros_publishers st) then Inr (st\<lparr>sink := sink st @ [(s, x)]\<rparr>)
      else Inl KeyError)"

text \<open>
  \<^verbatim>\<open>[k for k in self.sensor_active.keys() if not self.__is_bus_sensor(k) and self.__is_sensor_alive(k)]\<close>
\<close>

fun live_sensors :: "('m, 'v) node \<Rightarrow> sensor list \<Rightarrow> error + sensor list" where
  "live_sensors st [] = Inr []"
| "live_sensors st (k # ks) =
     (case is_bus_sensor st k of
        Inl e \<Rightarrow> Inl e
      | Inr True \<Rightarrow> live_sensors st ks
      | Inr False \<Rightarrow>
          (case is_sensor_alive st k of
             Inl e \<Rightarrow> Inl e
           | Inr a \<Rightarrow>
               (case live_sensors st ks of
                  Inl e \<Rightarrow> Inl e
                | Inr ls \<Rightarrow> Inr (if a then k # ls else ls))))"

text \<open>
  The fairness maintenance after the publish: the oldest entry of \<^verbatim>\<open>round_robin\<close> is
  popped once the list is at least as long as the list of live sensors that are not bus
  sensors.
\<close>

definition evict :: "('m, 'v) node \<Rightarrow> (unit, ('m, 'v) node) outcome" where
  "evict st =
     (case live_sensors st (map fst (sensor_active st)) of
        Inl e \<Rightarrow> Raises e st
      | Inr sensors \<Rightarrow>
          if length sensors \<le> length (round_robin st) \<and> round_robin st \<noteq> []
          then Returns () (st\<lparr>round_robin := tl (round_robin st)\<rparr>)
          else Returns () st)"

text \<open>
  \<^verbatim>\<open>if sensor and msg\<close>: the sensor is \<^verbatim>\<open>None\<close> or a string, and the empty string is
  falsy; the message is \<^verbatim>\<open>None\<close> or a ROS message object, which is truthy. The handler
  of the method logs and raises again, so an exception leaves the method as it came.
\<close>

definition publish_ros_msg ::
  "('m, 'v) node \<Rightarrow> sensor \<Rightarrow> 'm \<Rightarrow> (unit, ('m, 'v) node) outcome" where
  "publish_ros_msg st s msg =
     (case round_robin_sensor st s msg of
        Raises e st1 \<Rightarrow> Raises e st1
      | Returns None st1 \<Rightarrow> evict st1
      | Returns (Some (c, m)) st1 \<Rightarrow>
          if c \<noteq> [] then
            (case publish st1 c (Element m) of
               Inl e \<Rightarrow> Raises e st1
             | Inr st2 \<Rightarrow> evict st2)
          else evict st1)"

subsection \<open>\<^verbatim>\<open>__flush_sensors\<close>\<close>

text \<open>
  The loop keeps three locals across its iterations: \<^verbatim>\<open>sensor\<close>, \<^verbatim>\<open>msg\<close> and
  \<^verbatim>\<open>_nsensors_flushed\<close>. The attribute read \<^verbatim>\<open>front.msg\<close> is \<open>msg_attr\<close>
  (\<open>None\<close>: the object has no such attribute, an \<^verbatim>\<open>AttributeError\<close>), and \<open>truthy\<close>
  is Python's truth value of what the attribute holds; both belong to the message classes,
  which are not part of the node. One iteration, up to and including the publish:
\<close>

type_synonym 'v flush_locals = "sensor option \<times> 'v option \<times> nat"

definition flush_body ::
  "('m \<Rightarrow> 'v option) \<Rightarrow> ('v \<Rightarrow> bool) \<Rightarrow> 'v flush_locals \<Rightarrow> ('m, 'v) node \<Rightarrow>
     ('v flush_locals, ('m, 'v) node) outcome" where
  "flush_body msg_attr truthy loc st =
     (let st1 = st\<lparr>sensor_index := (sensor_index st + 1) mod length (sensor_list st)\<rparr>;
          c = sensor_list st1 ! sensor_index st1
      in case (case map_of (sensor_dict st1) c of
                 None \<Rightarrow> Raises KeyError st1
               | Some [] \<Rightarrow> Returns (fst loc, fst (snd loc), snd (snd loc) + 1) st1
               | Some (front # q) \<Rightarrow>
                   (let st2 = st1\<lparr>sensor_dict := AList.update c q (sensor_dict st1)\<rparr>
                    in case msg_attr front of
                         None \<Rightarrow> Raises AttributeError st2
                       | Some v \<Rightarrow> Returns (Some c, Some v, snd (snd loc)) st2)) of
           Raises e st2 \<Rightarrow> Raises e st2
         | Returns (Some s, Some v, flushed) st2 \<Rightarrow>
             if s \<noteq> [] \<and> truthy v then
               (case publish st2 s (Attribute v) of
                  Inl e \<Rightarrow> Raises e st2
                | Inr st3 \<Rightarrow> Returns (Some s, Some v, flushed) st3)
             else Returns (Some s, Some v, flushed) st2
         | Returns loc' st2 \<Rightarrow> Returns loc' st2)"

text \<open>
  \<^verbatim>\<open>for _ in range(_nsensors)\<close>, left early by the \<^verbatim>\<open>break\<close> when
  \<^verbatim>\<open>_nsensors == _nsensors_flushed\<close>.
\<close>

fun flush_loop ::
  "('m \<Rightarrow> 'v option) \<Rightarrow> ('v \<Rightarrow> bool) \<Rightarrow> nat \<Rightarrow> 'v flush_locals \<Rightarrow> ('m, 'v) node \<Rightarrow>
     (unit, ('m, 'v) node) outcome" where
  "flush_loop msg_attr truthy 0 loc st = Returns () st"
| "flush_loop msg_attr truthy (Suc k) loc st =
     (case flush_body msg_attr truthy loc st of
        Raises e st1 \<Rightarrow> Raises e st1
      | Returns loc' st1 \<Rightarrow>
          if length (sensor_list st) = snd (snd loc') then Returns () st1
          else flush_loop msg_attr truthy k loc' st1)"

definition flush_sensors ::
  "('m \<Rightarrow> 'v option) \<Rightarrow> ('v \<Rightarrow> bool) \<Rightarrow> ('m, 'v) node \<Rightarrow> (unit, ('m, 'v) node) outcome" where
  "flush_sensors msg_attr truthy st =
     flush_loop msg_attr truthy (length (sensor_list st)) (None, None, 0) st"

subsection \<open>A session as a sequence of calls\<close>

text \<open>
  \<^verbatim>\<open>__handle_request\<close> creates the publisher of a sensor, then starts its worker
  thread; a worker calls \<^verbatim>\<open>__publish_ros_msg\<close> for each message it has built, inside
  a handler that swallows whatever the call raises, and ends with
  \<^verbatim>\<open>self.sensor_active[sensor] = False\<close>. An event is one such call, and \<open>run\<close>
  takes the calls of a session one at a time, in any order: it is the session with its
  calls serialized. The worker threads of the source are not synchronised; a switch
  between two threads inside their calls is the subject of the next subsection.
\<close>

datatype 'm event = Advertise sensor | Submit sensor 'm | Finish sensor

fun node_of :: "('a, 's) outcome \<Rightarrow> 's" where
  "node_of (Returns x st) = st"
| "node_of (Raises e st) = st"

definition advertise :: "('m, 'v) node \<Rightarrow> sensor \<Rightarrow> ('m, 'v) node" where
  "advertise st s =
     st\<lparr>ros_publishers :=
          (if s \<in> set (ros_publishers st) then ros_publishers st
           else ros_publishers st @ [s])\<rparr>"

definition finish :: "('m, 'v) node \<Rightarrow> sensor \<Rightarrow> ('m, 'v) node" where
  "finish st s = st\<lparr>sensor_active := AList.update s False (sensor_active st)\<rparr>"

fun step :: "('m, 'v) node \<Rightarrow> 'm event \<Rightarrow> ('m, 'v) node" where
  "step st (Advertise s) = advertise st s"
| "step st (Submit s msg) = node_of (publish_ros_msg st s msg)"
| "step st (Finish s) = finish st s"

definition run :: "('m, 'v) node \<Rightarrow> 'm event list \<Rightarrow> ('m, 'v) node" where
  "run st evs = foldl step st evs"

text \<open>The messages submitted in a sequence of events, as the sink would show them.\<close>

fun submissions :: "'m event list \<Rightarrow> (sensor \<times> ('m, 'v) sent) list" where
  "submissions [] = []"
| "submissions (Submit s msg # evs) = (s, Element msg) # submissions evs"
| "submissions (ev # evs) = submissions evs"

text \<open>
  The events that the workers of a request can make: a worker runs for a sensor of the
  request, whose identifier is a non-empty string, and only after the publisher of its
  sensor was created. \<open>adv\<close> lists the sensors that have a publisher.
\<close>

fun workers :: "sensor list \<Rightarrow> sensor list \<Rightarrow> 'm event list \<Rightarrow> bool" where
  "workers ss adv [] = True"
| "workers ss adv (Advertise s # evs) = workers ss (s # adv) evs"
| "workers ss adv (Submit s msg # evs) =
     (s \<in> set ss \<and> s \<in> set adv \<and> s \<noteq> [] \<and> workers ss adv evs)"
| "workers ss adv (Finish s # evs) = (s \<in> set ss \<and> workers ss adv evs)"

text \<open>The number of messages waiting in the queues of all sensors.\<close>

definition queued :: "('m, 'v) node \<Rightarrow> nat" where
  "queued st = sum_list (map (\<lambda>(k, q). length q) (sensor_dict st))"

subsection \<open>Calls of several threads, statement by statement\<close>

text \<open>
  A thread inside \<^verbatim>\<open>__publish_ros_msg\<close> stands before one of the statements that read
  or write the shared fields, with its locals:
  \<^item> \<open>At_append\<close>: \<^verbatim>\<open>self.sensor_dict[sensor].append(msg)\<close>, with the arguments;
  \<^item> \<open>At_advance\<close>: the head of the \<^verbatim>\<open>for\<close> loop and
    \<^verbatim>\<open>self.sensor_index = (self.sensor_index + 1) % _nsensors\<close>, with the number of
    iterations left;
  \<^item> \<open>At_read\<close>: \<^verbatim>\<open>_sensor = self.sensor_list[self.sensor_index]\<close>;
  \<^item> \<open>At_skip\<close>: the skip test, with the candidate \<^verbatim>\<open>_sensor\<close>;
  \<^item> \<open>At_test\<close>: \<^verbatim>\<open>if self.sensor_dict[_sensor]\<close>;
  \<^item> \<open>At_pop\<close>: \<^verbatim>\<open>msg = self.sensor_dict[_sensor].pop(0)\<close>, an \<^verbatim>\<open>IndexError\<close> on
    an empty list;
  \<^item> \<open>At_publish\<close>: \<^verbatim>\<open>if sensor and msg: self.ros_publishers[sensor].publish(msg)\<close>, with
    the pair that the scan returned;
  \<^item> \<open>At_evict\<close>: the fairness maintenance;
  \<^item> \<open>Returned\<close>: the call has returned; \<open>Swallowed\<close>: the call has raised, and the
    handler round the call in the worker has swallowed the exception.
  \<open>statement\<close> runs the statement a thread stands before, on the shared node.
\<close>

datatype 'm point =
    At_append sensor 'm
  | At_advance nat
  | At_read nat
  | At_skip nat sensor
  | At_test nat sensor
  | At_pop sensor
  | At_publish "(sensor \<times> 'm) option"
  | At_evict
  | Returned
  | Swallowed error

fun statement :: "('m, 'v) node \<Rightarrow> 'm point \<Rightarrow> ('m, 'v) node \<times> 'm point" where
  "statement st (At_append s msg) =
     (case map_of (sensor_dict st) s of
        None \<Rightarrow> (st, Swallowed KeyError)
      | Some q \<Rightarrow>
          (st\<lparr>sensor_dict := AList.update s (q @ [msg]) (sensor_dict st)\<rparr>,
           At_advance (length (sensor_list st))))"
| "statement st (At_advance 0) = (st, At_publish None)"
| "statement st (At_advance (Suc k)) =
     (st\<lparr>sensor_index := (sensor_index st + 1) mod length (sensor_list st)\<rparr>, At_read k)"
| "statement st (At_read k) = (st, At_skip k (sensor_list st ! sensor_index st))"
| "statement st (At_skip k c) =
     (case skip_test st c of
        Inl e \<Rightarrow> (st, Swallowed e)
      | Inr True \<Rightarrow> (st, At_advance k)
      | Inr False \<Rightarrow> (st, At_test k c))"
| "statement st (At_test k c) =
     (case map_of (sensor_dict st) c of
        None \<Rightarrow> (st, Swallowed KeyError)
      | Some [] \<Rightarrow> (st, At_advance k)
      | Some (m # q) \<Rightarrow> (st, At_pop c))"
| "statement st (At_pop c) =
     (case map_of (sensor_dict st) c of
        None \<Rightarrow> (st, Swallowed KeyError)
      | Some [] \<Rightarrow> (st, Swallowed IndexError)
      | Some (m # q) \<Rightarrow>
          (st\<lparr>sensor_dict := AList.update c q (sensor_dict st)\<rparr>, At_publish (Some (c, m))))"
| "statement st (At_publish None) = (st, At_evict)"
| "statement st (At_publish (Some (c, m))) =
     (if c \<noteq> [] then
        (case publish st c (Element m) of
           Inl e \<Rightarrow> (st, Swallowed e)
         | Inr st2 \<Rightarrow> (st2, At_evict))
      else (st, At_evict))"
| "statement st At_evict =
     (case evict st of
        Returns u st1 \<Rightarrow> (st1, Returned)
      | Raises e st1 \<Rightarrow> (st1, Swallowed e))"
| "statement st Returned = (st, Returned)"
| "statement st (Swallowed e) = (st, Swallowed e)"

text \<open>
  A schedule names the thread that runs its next statement; \<open>interleave\<close> runs a
  schedule over the node and the threads.
\<close>

definition switch :: "('m, 'v) node \<times> 'm point list \<Rightarrow> nat \<Rightarrow> ('m, 'v) node \<times> 'm point list" where
  "switch sys i =
     (if i < length (snd sys)
      then (case statement (fst sys) (snd sys ! i) of
              (st, p) \<Rightarrow> (st, (snd sys)[i := p]))
      else sys)"

definition interleave ::
  "('m, 'v) node \<Rightarrow> 'm point list \<Rightarrow> nat list \<Rightarrow> ('m, 'v) node \<times> 'm point list" where
  "interleave st ps schedule = foldl switch (st, ps) schedule"

text \<open>
  A thread that runs \<open>n\<close> statements with no switch, and the point at which a call ends
  according to its outcome.
\<close>

fun solo :: "nat \<Rightarrow> ('m, 'v) node \<Rightarrow> 'm point \<Rightarrow> ('m, 'v) node \<times> 'm point" where
  "solo 0 st p = (st, p)"
| "solo (Suc n) st p = (case statement st p of (st1, p1) \<Rightarrow> solo n st1 p1)"

fun ending :: "('a, 's) outcome \<Rightarrow> 'm point" where
  "ending (Returns x st) = Returned"
| "ending (Raises e st) = Swallowed e"

subsection \<open>Reference conditions\<close>

text \<open>
  The scan without a skip test: the cursor moves, and the first candidate with a
  non-empty queue is popped.
\<close>

definition plain_body :: "('m, 'v) node \<Rightarrow> ((sensor \<times> 'm) option, ('m, 'v) node) outcome" where
  "plain_body st =
     (let st1 = st\<lparr>sensor_index := (sensor_index st + 1) mod length (sensor_list st)\<rparr>;
          c = sensor_list st1 ! sensor_index st1
      in case map_of (sensor_dict st1) c of
           None \<Rightarrow> Raises KeyError st1
         | Some [] \<Rightarrow> Returns None st1
         | Some (m # q) \<Rightarrow>
             Returns (Some (c, m))
               (st1\<lparr>sensor_dict := AList.update c q (sensor_dict st1)\<rparr>))"

fun plain_scan :: "nat \<Rightarrow> ('m, 'v) node \<Rightarrow> ((sensor \<times> 'm) option, ('m, 'v) node) outcome" where
  "plain_scan 0 st = Returns None st"
| "plain_scan (Suc k) st =
     (case plain_body st of
        Raises e st1 \<Rightarrow> Raises e st1
      | Returns (Some found) st1 \<Rightarrow> Returns (Some found) st1
      | Returns None st1 \<Rightarrow> plain_scan k st1)"

definition plain_round_robin_sensor ::
  "('m, 'v) node \<Rightarrow> sensor \<Rightarrow> 'm \<Rightarrow> ((sensor \<times> 'm) option, ('m, 'v) node) outcome" where
  "plain_round_robin_sensor st s msg =
     (case map_of (sensor_dict st) s of
        None \<Rightarrow> Raises KeyError st
      | Some q \<Rightarrow>
          plain_scan (length (sensor_list st))
            (st\<lparr>sensor_dict := AList.update s (q @ [msg]) (sensor_dict st)\<rparr>))"



section \<open>Sensor workers\<close>

text \<open>
  A worker thread runs \<^verbatim>\<open>__publish_sensor\<close> for one sensor. What it does to the node is
  a sequence of calls: \<^verbatim>\<open>__publish_ros_msg\<close> for each message it has built, and
  \<^verbatim>\<open>self.sensor_active[sensor] = False\<close> at the end. Every call of
  \<^verbatim>\<open>__publish_ros_msg\<close> by a worker stands inside a \<^verbatim>\<open>try\<close> whose handler catches
  \<^verbatim>\<open>BaseException\<close> and only logs, so the control flow of a worker does not depend on
  the node: a worker is modelled by the messages it submits, batch by batch, and the
  error that ended it, if one did.
\<close>

text \<open>
  A parsed point cloud: the points, each a list of coordinates, and the reflectance of
  each point. A coordinate is a floating-point number or not-a-number; only the
  difference between the two is used.
\<close>

datatype coord = NaN | Num real

record cloud =
  points :: "coord list list"
  reflectance :: "real list"

text \<open>\<^verbatim>\<open>np.isnan(points).any()\<close>\<close>

definition isnan_any :: "coord list list \<Rightarrow> bool" where
  "isnan_any pts = (\<exists>p \<in> set pts. NaN \<in> set p)"

record 'm worker_run =
  batches :: "'m list list"
  escaped :: "error option"

subsection \<open>Collaborators\<close>

text \<open>
  Modelled from the spec: the manifest cursor, which is opened by \<^verbatim>\<open>create_manifest\<close>
  of module \<^verbatim>\<open>util\<close>. It exposes \<^verbatim>\<open>is_open()\<close> and \<^verbatim>\<open>fetch()\<close>; a batch may be
  empty while the cursor is open. The cursor is the list of the replies that its fetches
  will give, and it is open while a reply is left. A fetch gives a batch or raises.
\<close>

datatype 'e reply = Batch "'e list" | Broken error

text \<open>
  The functions of the modules \<^verbatim>\<open>util\<close>, \<^verbatim>\<open>ros_util\<close>, \<^verbatim>\<open>view\<close>, \<^verbatim>\<open>s3_reader\<close>,
  \<^verbatim>\<open>cv_bridge\<close> and \<^verbatim>\<open>numpy\<close> that the workers call are parameters: each gives a value
  or raises. \<open>'e\<close> is a manifest entry (a file descriptor or a bus row), \<open>'d\<close> decoded
  data (an image matrix or a loaded archive), \<open>'k\<close> a calibration value and \<open>'m\<close> a ROS
  message.
  \<^item> \<open>read_images_from_fs\<close>, \<open>read_pcl_from_fs\<close>: the data read for the files of a batch,
    each with its timestamp; the count that the source loops over is the length.
  \<^item> \<open>locator\<close>: \<^verbatim>\<open>bucket + " " + key\<close> of an entry, as put on the request queue.
  \<^item> \<open>resp_get\<close>: the local path that the reader answers for an entry.
  \<^item> \<open>np_load\<close>, \<open>entry_ts\<close>: \<^verbatim>\<open>np.load(path)\<close> and \<^verbatim>\<open>int(f[2])\<close>.
  \<^item> \<open>image_msg\<close>: \<^verbatim>\<open>cv2_to_imgmsg\<close> followed by \<^verbatim>\<open>set_ros_msg_header\<close>.
\<close>

record ('e, 'd, 'k, 'm) collab =
  read_images_from_fs :: "'e list \<Rightarrow> error + ('d \<times> int) list"
  read_pcl_from_fs :: "'e list \<Rightarrow> error + ('d \<times> int) list"
  locator :: "'e \<Rightarrow> error + string"
  resp_get :: "'e \<Rightarrow> error + string"
  np_load :: "string \<Rightarrow> error + 'd"
  entry_ts :: "'e \<Rightarrow> error + int"
  undistort_image :: "'k \<times> 'k \<times> 'k \<times> 'k \<Rightarrow> 'd \<Rightarrow> error + 'd"
  image_msg :: "'d \<Rightarrow> int \<Rightarrow> string \<Rightarrow> error + 'm"
  parse_pcl_npz :: "string \<Rightarrow> 'k option \<Rightarrow> 'd \<Rightarrow> error + cloud"
  pcl_dense_msg :: "cloud \<Rightarrow> int \<Rightarrow> string \<Rightarrow> error + 'm"
  bus_msg :: "'e \<Rightarrow> string \<Rightarrow> error + 'm"
  transform_from_to :: "'k \<Rightarrow> 'k \<Rightarrow> error + 'k"

text \<open>
  The configuration of the node: \<^verbatim>\<open>self.data_store['input']\<close>, and the calibration
  document \<^verbatim>\<open>self.cal_json\<close> with its keys \<^verbatim>\<open>cameras\<close> and \<^verbatim>\<open>vehicle\<close>.
\<close>

record 'k config =
  data_store_input :: string
  cal_cameras :: "(string \<times> (string \<times> 'k) list) list"
  cal_vehicle :: "(string \<times> 'k) list"

definition dict_get :: "('a \<times> 'b) list \<Rightarrow> 'a \<Rightarrow> error + 'b" where
  "dict_get d k = (case map_of d k of None \<Rightarrow> Inl KeyError | Some v \<Rightarrow> Inr v)"

subsection \<open>Calibration lookups\<close>

text \<open>
  \<^verbatim>\<open>sensor.rsplit("/", 1)[1]\<close>: the part after the last slash, an \<^verbatim>\<open>IndexError\<close> when
  the identifier has no slash.
\<close>

definition cam_name :: "sensor \<Rightarrow> error + string" where
  "cam_name s =
     (if CHR ''/'' \<in> set s then Inr (rev (takeWhile (\<lambda>c. c \<noteq> CHR ''/'') (rev s)))
      else Inl IndexError)"

definition get_camera_info :: "'k config \<Rightarrow> sensor \<Rightarrow> error + ('k \<times> 'k \<times> 'k \<times> 'k)" where
  "get_camera_info cfg s =
     (case cam_name s of Inl e \<Rightarrow> Inl e | Inr n \<Rightarrow>
      case dict_get (cal_cameras cfg) n of Inl e \<Rightarrow> Inl e | Inr cam \<Rightarrow>
      case dict_get cam ''CamMatrix'' of Inl e \<Rightarrow> Inl e | Inr intr_mat_undist \<Rightarrow>
      case dict_get cam ''CamMatrixOriginal'' of Inl e \<Rightarrow> Inl e | Inr intr_mat_dist \<Rightarrow>
      case dict_get cam ''Distortion'' of Inl e \<Rightarrow> Inl e | Inr dist_parms \<Rightarrow>
      case dict_get cam ''Lens'' of Inl e \<Rightarrow> Inl e | Inr lens \<Rightarrow>
      Inr (lens, dist_parms, intr_mat_dist, intr_mat_undist))"

definition sensor_to_vehicle_matrix ::
  "('e, 'd, 'k, 'm) collab \<Rightarrow> 'k config \<Rightarrow> sensor \<Rightarrow> error + 'k" where
  "sensor_to_vehicle_matrix c cfg s =
     (case cam_name s of Inl e \<Rightarrow> Inl e | Inr n \<Rightarrow>
      case dict_get (cal_cameras cfg) n of Inl e \<Rightarrow> Inl e | Inr cam \<Rightarrow>
      case dict_get cam ''view'' of Inl e \<Rightarrow> Inl e | Inr src \<Rightarrow>
      case dict_get (cal_vehicle cfg) ''view'' of Inl e \<Rightarrow> Inl e | Inr dst \<Rightarrow>
      transform_from_to c src dst)"

subsection \<open>The loop over the manifest\<close>

text \<open>
  The five worker loops have one shape:
  \<^verbatim>\<open>
  while True:
      files = None
      while not files and manifest.is_open():
          files = manifest.fetch()
      if not files:
          break
      BODY(files)
      if self.request['preview']:
          break
  \<close>
  An empty reply keeps the inner loop polling; with no reply left the cursor is closed
  and the outer loop breaks; a non-empty batch goes through the body, which gives the
  messages it submitted and the error that escaped it, if one did. A missing
  \<^verbatim>\<open>preview\<close> key is a \<^verbatim>\<open>KeyError\<close> after the first batch.
\<close>

fun manifest_loop ::
  "('e list \<Rightarrow> 'm list \<times> error option) \<Rightarrow> bool option \<Rightarrow> 'e reply list \<Rightarrow> 'm worker_run" where
  "manifest_loop body pv [] = \<lparr>batches = [], escaped = None\<rparr>"
| "manifest_loop body pv (Broken e # mf) = \<lparr>batches = [], escaped = Some e\<rparr>"
| "manifest_loop body pv (Batch [] # mf) = manifest_loop body pv mf"
| "manifest_loop body pv (Batch (f # fs) # mf) =
     (case body (f # fs) of
        (ms, Some e) \<Rightarrow> \<lparr>batches = [ms], escaped = Some e\<rparr>
      | (ms, None) \<Rightarrow>
          (case pv of
             None \<Rightarrow> \<lparr>batches = [ms], escaped = Some KeyError\<rparr>
           | Some True \<Rightarrow> \<lparr>batches = [ms], escaped = None\<rparr>
           | Some False \<Rightarrow>
               (let r = manifest_loop body pv mf in r\<lparr>batches := ms # batches r\<rparr>)))"

subsection \<open>Images\<close>

text \<open>
  \<^verbatim>\<open>__publish_image_msg\<close>: the message is built and submitted inside a \<^verbatim>\<open>try\<close>; when
  the conversion raises, nothing is submitted.
\<close>

definition publish_image_msg ::
  "('e, 'd, 'k, 'm) collab \<Rightarrow> 'd \<Rightarrow> int \<Rightarrow> string \<Rightarrow> 'm list" where
  "publish_image_msg c img ts frame_id =
     (case image_msg c img ts frame_id of Inl e \<Rightarrow> [] | Inr msg \<Rightarrow> [msg])"

text \<open>
  The \<^verbatim>\<open>for i in range(0, count)\<close> of \<^verbatim>\<open>__publish_images_from_fs\<close>: the undistortion
  stands outside any \<^verbatim>\<open>try\<close>.
\<close>

fun images_fs_records ::
  "('e, 'd, 'k, 'm) collab \<Rightarrow> ('k \<times> 'k \<times> 'k \<times> 'k) option \<Rightarrow> string \<Rightarrow> ('d \<times> int) list \<Rightarrow>
     'm list \<times> error option" where
  "images_fs_records c info frame_id [] = ([], None)"
| "images_fs_records c info frame_id ((img, ts) # rest) =
     (case (case info of None \<Rightarrow> Inr img | Some k \<Rightarrow> undistort_image c k img) of
        Inl e \<Rightarrow> ([], Some e)
      | Inr img' \<Rightarrow>
          (let (ms, r) = images_fs_records c info frame_id rest
           in (publish_image_msg c img' ts frame_id @ ms, r)))"

definition images_fs_batch ::
  "('e, 'd, 'k, 'm) collab \<Rightarrow> ('k \<times> 'k \<times> 'k \<times> 'k) option \<Rightarrow> string \<Rightarrow> 'e list \<Rightarrow>
     'm list \<times> error option" where
  "images_fs_batch c info frame_id files =
     (case read_images_from_fs c files of
        Inl e \<Rightarrow> ([], Some e)
      | Inr loaded \<Rightarrow> images_fs_records c info frame_id loaded)"

text \<open>
  The camera information is fetched when the request asks for undistorted images; an
  error there escapes before the loop starts.
\<close>

definition camera_info_for ::
  "'k config \<Rightarrow> request \<Rightarrow> sensor \<Rightarrow> error + ('k \<times> 'k \<times> 'k \<times> 'k) option" where
  "camera_info_for cfg req s =
     (if image_request req = Some ''undistorted''
      then (case get_camera_info cfg s of Inl e \<Rightarrow> Inl e | Inr k \<Rightarrow> Inr (Some k))
      else Inr None)"

definition publish_images_from_fs ::
  "('e, 'd, 'k, 'm) collab \<Rightarrow> 'k config \<Rightarrow> request \<Rightarrow> sensor \<Rightarrow> string \<Rightarrow> 'e reply list \<Rightarrow>
     'm worker_run" where
  "publish_images_from_fs c cfg req s frame_id manifest =
     (case camera_info_for cfg req s of
        Inl e \<Rightarrow> \<lparr>batches = [], escaped = Some e\<rparr>
      | Inr info \<Rightarrow> manifest_loop (images_fs_batch c info frame_id) (preview req) manifest)"

text \<open>
  The object-store mode puts the locators of the whole batch on the request queue, outside
  any \<^verbatim>\<open>try\<close>, then handles one response per file inside a \<^verbatim>\<open>try\<close>.
\<close>

fun req_put_all :: "('e, 'd, 'k, 'm) collab \<Rightarrow> 'e list \<Rightarrow> error option" where
  "req_put_all c [] = None"
| "req_put_all c (f # fs) =
     (case locator c f of Inl e \<Rightarrow> Some e | Inr l \<Rightarrow> req_put_all c fs)"

definition swallow :: "error + 'm list \<Rightarrow> 'm list" where
  "swallow r = (case r of Inl e \<Rightarrow> [] | Inr ms \<Rightarrow> ms)"

text \<open>
  One file of \<^verbatim>\<open>__process_s3_image_files\<close>: after the response is read the source calls
  \<^verbatim>\<open>cv2.imread\<close>, and the module does not import \<^verbatim>\<open>cv2\<close>: a \<^verbatim>\<open>NameError\<close>, which
  the handler of the file swallows.
\<close>

definition s3_image_file :: "('e, 'd, 'k, 'm) collab \<Rightarrow> 'e \<Rightarrow> error + 'm list" where
  "s3_image_file c f = (case resp_get c f of Inl e \<Rightarrow> Inl e | Inr path \<Rightarrow> Inl NameError)"

definition process_s3_image_files :: "('e, 'd, 'k, 'm) collab \<Rightarrow> 'e list \<Rightarrow> 'm list" where
  "process_s3_image_files c files = concat (map (\<lambda>f. swallow (s3_image_file c f)) files)"

definition images_s3_batch :: "('e, 'd, 'k, 'm) collab \<Rightarrow> 'e list \<Rightarrow> 'm list \<times> error option" where
  "images_s3_batch c files =
     (case req_put_all c files of
        Some e \<Rightarrow> ([], Some e)
      | None \<Rightarrow> (process_s3_image_files c files, None))"

definition publish_images_from_s3 ::
  "('e, 'd, 'k, 'm) collab \<Rightarrow> 'k config \<Rightarrow> request \<Rightarrow> sensor \<Rightarrow> string \<Rightarrow> 'e reply list \<Rightarrow>
     'm worker_run" where
  "publish_images_from_s3 c cfg req s frame_id manifest =
     (case camera_info_for cfg req s of
        Inl e \<Rightarrow> \<lparr>batches = [], escaped = Some e\<rparr>
      | Inr info \<Rightarrow> manifest_loop (images_s3_batch c) (preview req) manifest)"

definition publish_images ::
  "('e, 'd, 'k, 'm) collab \<Rightarrow> 'k config \<Rightarrow> request \<Rightarrow> sensor \<Rightarrow> string \<Rightarrow> 'e reply list \<Rightarrow>
     'm worker_run" where
  "publish_images c cfg req s frame_id manifest =
     (if data_store_input cfg \<noteq> ''s3'' then publish_images_from_fs c cfg req s frame_id manifest
      else publish_images_from_s3 c cfg req s frame_id manifest)"

subsection \<open>Point clouds\<close>

definition publish_pcl_msg ::
  "('e, 'd, 'k, 'm) collab \<Rightarrow> cloud \<Rightarrow> int \<Rightarrow> string \<Rightarrow> 'm list" where
  "publish_pcl_msg c cl ts frame_id =
     (case pcl_dense_msg c cl ts frame_id of Inl e \<Rightarrow> [] | Inr msg \<Rightarrow> [msg])"

text \<open>
  The vehicle transform is computed when the request asks for the vehicle view. The
  second component is the value of \<^verbatim>\<open>request.get("lidar_view", "camera")\<close>.
\<close>

definition lidar_view_of :: "request \<Rightarrow> string" where
  "lidar_view_of req = (case lidar_view req of None \<Rightarrow> ''camera'' | Some v \<Rightarrow> v)"

definition vehicle_transform_for ::
  "('e, 'd, 'k, 'm) collab \<Rightarrow> 'k config \<Rightarrow> request \<Rightarrow> sensor \<Rightarrow> error + 'k option" where
  "vehicle_transform_for c cfg req s =
     (if lidar_view_of req = ''vehicle''
      then (case sensor_to_vehicle_matrix c cfg s of Inl e \<Rightarrow> Inl e | Inr k \<Rightarrow> Inr (Some k))
      else Inr None)"

text \<open>
  The \<^verbatim>\<open>for i in range(0, count)\<close> of \<^verbatim>\<open>__publish_pcl_from_fs\<close>: the parse and the NaN
  test stand outside any \<^verbatim>\<open>try\<close>.
\<close>

fun pcl_fs_records ::
  "('e, 'd, 'k, 'm) collab \<Rightarrow> string \<Rightarrow> 'k option \<Rightarrow> string \<Rightarrow> ('d \<times> int) list \<Rightarrow>
     'm list \<times> error option" where
  "pcl_fs_records c view mat frame_id [] = ([], None)"
| "pcl_fs_records c view mat frame_id ((npz, ts) # rest) =
     (case parse_pcl_npz c view mat npz of
        Inl e \<Rightarrow> ([], Some e)
      | Inr cl \<Rightarrow>
          (let (ms, r) = pcl_fs_records c view mat frame_id rest
           in ((if \<not> isnan_any (points cl) then publish_pcl_msg c cl ts frame_id else []) @ ms,
               r)))"

definition pcl_fs_batch ::
  "('e, 'd, 'k, 'm) collab \<Rightarrow> string \<Rightarrow> 'k option \<Rightarrow> string \<Rightarrow> 'e list \<Rightarrow>
     'm list \<times> error option" where
  "pcl_fs_batch c view mat frame_id files =
     (case read_pcl_from_fs c files of
        Inl e \<Rightarrow> ([], Some e)
      | Inr loaded \<Rightarrow> pcl_fs_records c view mat frame_id loaded)"

definition publish_pcl_from_fs ::
  "('e, 'd, 'k, 'm) collab \<Rightarrow> 'k config \<Rightarrow> request \<Rightarrow> sensor \<Rightarrow> string \<Rightarrow> 'e reply list \<Rightarrow>
     'm worker_run" where
  "publish_pcl_from_fs c cfg req s frame_id manifest =
     (case vehicle_transform_for c cfg req s of
        Inl e \<Rightarrow> \<lparr>batches = [], escaped = Some e\<rparr>
      | Inr mat \<Rightarrow>
          manifest_loop (pcl_fs_batch c (lidar_view_of req) mat frame_id) (preview req) manifest)"

text \<open>
  One file of \<^verbatim>\<open>__process_s3_pcl_files\<close>, the body of its \<^verbatim>\<open>try\<close>: response, load,
  timestamp, parse, NaN test, submission.
\<close>

definition s3_pcl_file ::
  "('e, 'd, 'k, 'm) collab \<Rightarrow> string \<Rightarrow> 'k option \<Rightarrow> string \<Rightarrow> 'e \<Rightarrow> error + 'm list" where
  "s3_pcl_file c view mat frame_id f =
     (case resp_get c f of Inl e \<Rightarrow> Inl e | Inr path \<Rightarrow>
      case np_load c path of Inl e \<Rightarrow> Inl e | Inr npz \<Rightarrow>
      case entry_ts c f of Inl e \<Rightarrow> Inl e | Inr ts \<Rightarrow>
      case parse_pcl_npz c view mat npz of Inl e \<Rightarrow> Inl e | Inr cl \<Rightarrow>
      Inr (if \<not> isnan_any (points cl) then publish_pcl_msg c cl ts frame_id else []))"

definition process_s3_pcl_files ::
  "('e, 'd, 'k, 'm) collab \<Rightarrow> string \<Rightarrow> 'k option \<Rightarrow> string \<Rightarrow> 'e list \<Rightarrow> 'm list" where
  "process_s3_pcl_files c view mat frame_id files =
     concat (map (\<lambda>f. swallow (s3_pcl_file c view mat frame_id f)) files)"

definition pcl_s3_batch ::
  "('e, 'd, 'k, 'm) collab \<Rightarrow> string \<Rightarrow> 'k option \<Rightarrow> string \<Rightarrow> 'e list \<Rightarrow>
     'm list \<times> error option" where
  "pcl_s3_batch c view mat frame_id files =
     (case req_put_all c files of
        Some e \<Rightarrow> ([], Some e)
      | None \<Rightarrow> (process_s3_pcl_files c view mat frame_id files, None))"

definition publish_pcl_from_s3 ::
  "('e, 'd, 'k, 'm) collab \<Rightarrow> 'k config \<Rightarrow> request \<Rightarrow> sensor \<Rightarrow> string \<Rightarrow> 'e reply list \<Rightarrow>
     'm worker_run" where
  "publish_pcl_from_s3 c cfg req s frame_id manifest =
     (case vehicle_transform_for c cfg req s of
        Inl e \<Rightarrow> \<lparr>batches = [], escaped = Some e\<rparr>
      | Inr mat \<Rightarrow>
          manifest_loop (pcl_s3_batch c (lidar_view_of req) mat frame_id) (preview req) manifest)"

definition publish_pcl ::
  "('e, 'd, 'k, 'm) collab \<Rightarrow> 'k config \<Rightarrow> request \<Rightarrow> sensor \<Rightarrow> string \<Rightarrow> 'e reply list \<Rightarrow>
     'm worker_run" where
  "publish_pcl c cfg req s frame_id manifest =
     (if data_store_input cfg \<noteq> ''s3'' then publish_pcl_from_fs c cfg req s frame_id manifest
      else publish_pcl_from_s3 c cfg req s frame_id manifest)"

subsection \<open>Bus rows\<close>

definition bus_row :: "('e, 'd, 'k, 'm) collab \<Rightarrow> string \<Rightarrow> 'e \<Rightarrow> error + 'm list" where
  "bus_row c frame_id row =
     (case bus_msg c row frame_id of Inl e \<Rightarrow> Inl e | Inr msg \<Rightarrow> Inr [msg])"

definition bus_batch :: "('e, 'd, 'k, 'm) collab \<Rightarrow> string \<Rightarrow> 'e list \<Rightarrow> 'm list \<times> error option" where
  "bus_batch c frame_id rows = (concat (map (\<lambda>row. swallow (bus_row c frame_id row)) rows), None)"

definition publish_bus ::
  "('e, 'd, 'k, 'm) collab \<Rightarrow> request \<Rightarrow> string \<Rightarrow> 'e reply list \<Rightarrow> 'm worker_run" where
  "publish_bus c req frame_id manifest = manifest_loop (bus_batch c frame_id) (preview req) manifest"

subsection \<open>\<^verbatim>\<open>__publish_sensor\<close>\<close>

text \<open>
  The calls that a worker run makes on the node: its submissions in order, then the
  assignment of the active flag, which stands after the loop and is reached only when no
  error escaped.
\<close>

definition worker_events :: "sensor \<Rightarrow> 'm worker_run \<Rightarrow> 'm event list" where
  "worker_events s r =
     map (Submit s) (concat (batches r)) @
     (case escaped r of None \<Rightarrow> [Finish s] | Some e \<Rightarrow> [])"

text \<open>
  The worker by data type. The handler of \<^verbatim>\<open>__publish_sensor\<close> catches
  \<^verbatim>\<open>Exception\<close> and only logs: the method returns in every case, and an escaped error
  leaves no trace on the node. A data type that is none of the three starts no worker.
\<close>

definition sensor_run ::
  "('e, 'd, 'k, 'm) collab \<Rightarrow> 'k config \<Rightarrow> request \<Rightarrow> sensor \<Rightarrow> string \<Rightarrow> 'e reply list \<Rightarrow>
     'm worker_run option" where
  "sensor_run c cfg req s frame_id manifest =
     (case dict_get (data_type req) s of
        Inl e \<Rightarrow> Some \<lparr>batches = [], escaped = Some e\<rparr>
      | Inr t \<Rightarrow>
          if t = ''sensor_msgs/Image'' then Some (publish_images c cfg req s frame_id manifest)
          else if t = ''sensor_msgs/PointCloud2'' then Some (publish_pcl c cfg req s frame_id manifest)
          else if t = BUS_DATA_TYPE then Some (publish_bus c req frame_id manifest)
          else None)"

definition publish_sensor ::
  "('e, 'd, 'k, 'm) collab \<Rightarrow> 'k config \<Rightarrow> request \<Rightarrow> sensor \<Rightarrow> string \<Rightarrow> 'e reply list \<Rightarrow>
     'm event list" where
  "publish_sensor c cfg req s frame_id manifest =
     (case sensor_run c cfg req s frame_id manifest of
        None \<Rightarrow> []
      | Some r \<Rightarrow> worker_events s r)"

text \<open>
  The state between two calls of a session: the skip set is empty, the sensors of the
  list are the keys of the dict of queues, and every queue is empty.
\<close>

definition calm :: "('m, 'v) node \<Rightarrow> bool" where
  "calm st = (round_robin st = [] \<and> set (sensor_list st) = fst ` set (sensor_dict st) \<and>
     (\<forall>kq \<in> set (sensor_dict st). snd kq = []))"

text \<open>A request with a camera and a lidar, and a session of its two workers.\<close>

definition demo_request :: request where
  "demo_request =
     \<lparr>sensor_id = [''cam'', ''lidar''],
      data_type = [(''cam'', ''sensor_msgs/Image''), (''lidar'', ''sensor_msgs/PointCloud2'')],
      preview = Some False, image_request = None, lidar_view = None\<rparr>"

definition demo_events :: "nat event list" where
  "demo_events =
     [Advertise ''cam'', Advertise ''lidar'', Submit ''cam'' 1, Submit ''lidar'' 2,
      Submit ''cam'' 3, Finish ''cam'', Finish ''lidar'']"

text \<open>A request with a camera and a bus sensor.\<close>

definition bus_request :: request where
  "bus_request =
     \<lparr>sensor_id = [''cam'', ''bus''],
      data_type = [(''cam'', ''sensor_msgs/Image''), (''bus'', BUS_DATA_TYPE)],
      preview = Some False, image_request = None, lidar_view = None\<rparr>"

text \<open>
  Two workers inside their first calls at the same time. Both publishers exist and the
  cursor is at the camera. The camera worker submits the message 1 and the lidar worker
  the message 2; the threads take turns statement by statement until the lidar worker
  raises, then the camera worker ends its call. \<open>race_end\<close> is the node they leave.
\<close>

definition race_start :: "(nat, nat) node" where
  "race_start = advertise (advertise (init_request demo_request) ''cam'') ''lidar''"

definition race_end :: "(nat, nat) node" where
  "race_end =
     \<lparr>request = demo_request,
      sensor_dict = [(''cam'', []), (''lidar'', [2])],
      sensor_list = [''cam'', ''lidar''],
      sensor_active = [(''cam'', True), (''lidar'', True)],
      sensor_index = 0,
      round_robin = [],
      ros_publishers = [''cam'', ''lidar''],
      sink = [(''cam'', Element 1)]\<rparr>"

definition race_schedule :: "nat list" where
  "race_schedule = [0, 1, 0, 1, 0, 1, 0, 1, 0, 1, 0, 1, 0, 0]"

text \<open>
  A state after the workers have finished, with two messages left in the queue of the
  camera.
\<close>

definition backlog :: "(nat, nat) node" where
  "backlog =
     \<lparr>request = demo_request,
      sensor_dict = [(''cam'', [1, 2]), (''lidar'', [])],
      sensor_list = [''cam'', ''lidar''],
      sensor_active = [(''cam'', False), (''lidar'', False)],
      sensor_index = 1,
      round_robin = [],
      ros_publishers = [''cam'', ''lidar''],
      sink = []\<rparr>"

text \<open>
  Collaborators for the examples. Entries, decoded data and messages are numbers: an
  entry loads as itself, with itself as timestamp; the archive 0 does not parse, the cloud
  of the archive 7 has a NaN coordinate, and the bus row 0 does not convert.
\<close>

definition demo_cloud :: "nat \<Rightarrow> cloud" where
  "demo_cloud d =
     \<lparr>points = [[Num 1, Num 2, if d = 7 then NaN else Num 3]], reflectance = [1]\<rparr>"

definition demo_collab :: "(nat, nat, nat, nat) collab" where
  "demo_collab =
     \<lparr>read_images_from_fs = (\<lambda>fs. Inr (map (\<lambda>f. (f, int f)) fs)),
      read_pcl_from_fs = (\<lambda>fs. Inr (map (\<lambda>f. (f, int f)) fs)),
      locator = (\<lambda>f. Inr ''bucket key''),
      resp_get = (\<lambda>f. Inr (replicate f CHR ''x'')),
      np_load = (\<lambda>p. Inr (length p)),
      entry_ts = (\<lambda>f. Inr (int f)),
      undistort_image = (\<lambda>k d. Inr d),
      image_msg = (\<lambda>d ts fr. Inr d),
      parse_pcl_npz = (\<lambda>v m d. if d = 0 then Inl Failure else Inr (demo_cloud d)),
      pcl_dense_msg = (\<lambda>cl ts fr. Inr (nat ts)),
      bus_msg = (\<lambda>row fr. if row = 0 then Inl Failure else Inr row),
      transform_from_to = (\<lambda>a b. Inr a)\<rparr>"

definition demo_config :: "nat config" where
  "demo_config = \<lparr>data_store_input = ''fs'', cal_cameras = [], cal_vehicle = []\<rparr>"

definition preview_request :: request where
  "preview_request = demo_request\<lparr>preview := Some True\<rparr>"

definition three_batches :: "nat reply list" where
  "three_batches = [Batch [1, 2], Batch [3], Batch [4]]"

definition broken_manifest :: "nat reply list" where
  "broken_manifest = [Batch [2], Broken Failure]"



section \<open>Properties of the dispatcher and the flusher\<close>

subsection \<open>The scan from a state with one waiting message\<close>

lemma scan_finds:
  assumes "round_robin st = []" "n = length (sensor_list st)"
   "\<forall>c\<in>set (sensor_list st). c \<noteq> s \<longrightarrow> map_of (sensor_dict st) c = Some []"
   "map_of (sensor_dict st) s = Some (m # q)"
   "i < k" "sensor_list st ! ((sensor_index st + 1 + i) mod n) = s" "0 < n"
  shows "\<exists>j<n. scan k st = Returns (Some (s, m)) (st\<lparr>sensor_index := j, sensor_dict := AList.update s q (sensor_dict st)\<rparr>)"
  using assms
proof (induction k arbitrary: st i)
  case 0
  then show ?case by simp
next
  case (Suc k)
  let ?st1 = "st\<lparr>sensor_index := (sensor_index st + 1) mod n\<rparr>"
  let ?c = "sensor_list st ! ((sensor_index st + 1) mod n)"
  have sk: "skip_test ?st1 ?c = Inr False"
    using Suc.prems(1) by (simp add: skip_test_def)
  show ?case
  proof (cases "?c = s")
    case True
    then have "scan_body st = Returns (Some (s, m)) (?st1\<lparr>sensor_dict := AList.update s q (sensor_dict st)\<rparr>)"
      using sk Suc.prems by (simp add: scan_body_def Let_def)
    then show ?thesis using Suc.prems(7)
      by (intro exI[of _ "(sensor_index st + 1) mod n"]) simp
  next
    case False
    have "?c \<in> set (sensor_list st)" using Suc.prems(2,7) by simp
    then have "map_of (sensor_dict st) ?c = Some []" using False Suc.prems(3) by blast
    then have body: "scan_body st = Returns None ?st1"
      using sk Suc.prems(2) by (simp add: scan_body_def Let_def)
    from False Suc.prems(6) have "i \<noteq> 0" by (cases i) auto
    then obtain i' where i': "i = Suc i'" by (cases i) auto
    have pos: "sensor_list ?st1 ! ((sensor_index ?st1 + 1 + i') mod n) = s"
      using Suc.prems(6) i' mod_add_left_eq[of "sensor_index st + 1" n "1 + i'"]
      by (simp add: ac_simps)
    have "\<exists>j<n. scan k ?st1 = Returns (Some (s, m)) (?st1\<lparr>sensor_index := j, sensor_dict := AList.update s q (sensor_dict ?st1)\<rparr>)"
      by (rule Suc.IH[where i=i']) (use Suc.prems i' pos in simp_all)
    then show ?thesis using body by simp
  qed
qed

text \<open>Every position of the sensor list is reached within one round of the cursor.\<close>

lemma round_reaches:
  assumes "p < n"
  shows "\<exists>i<n. (a + 1 + i) mod n = (p::nat)"
proof -
  let ?b = "(a + 1) mod n"
  let ?i = "(p + n - ?b) mod n"
  have n: "0 < n" using assms by simp
  have b: "?b < n" using n by simp
  have "(a + 1 + ?i) mod n = (?b + ?i) mod n" by (simp add: mod_add_left_eq)
  also have "\<dots> = (?b + (p + n - ?b)) mod n" by (simp add: mod_add_right_eq)
  also have "\<dots> = (p + n) mod n" using b by simp
  also have "\<dots> = p" using assms by simp
  finally have "(a + 1 + ?i) mod n = p" .
  moreover have "?i < n" using n by simp
  ultimately show ?thesis by blast
qed

lemma evict_quiet: "round_robin st = [] \<Longrightarrow> node_of (evict st) = st"
  by (simp add: evict_def split: sum.splits)

lemma evict_quiet_returns:
  "round_robin st = [] \<Longrightarrow> live_sensors st (map fst (sensor_active st)) = Inr ls \<Longrightarrow> evict st = Returns () st"
  by (simp add: evict_def)

lemma calm_lookup: "calm st \<Longrightarrow> s \<in> set (sensor_list st) \<Longrightarrow> map_of (sensor_dict st) s = Some []"
proof -
  assume c: "calm st" and s: "s \<in> set (sensor_list st)"
  then have "s \<in> fst ` set (sensor_dict st)" by (simp add: calm_def)
  then obtain q where q: "map_of (sensor_dict st) s = Some q"
    by (metis domD dom_map_of_conv_image_fst)
  then have "(s, q) \<in> set (sensor_dict st)" by (rule map_of_SomeD)
  then have "q = []" using c by (auto simp: calm_def)
  then show ?thesis using q by simp
qed

lemma calm_miss: "calm st \<Longrightarrow> s \<notin> set (sensor_list st) \<Longrightarrow> map_of (sensor_dict st) s = None"
  by (simp add: calm_def map_of_eq_None_iff)

lemma submit_calm:
  assumes "calm st" "s \<in> set (sensor_list st)"
  shows "\<exists>j. round_robin_sensor st s m = Returns (Some (s, m)) (st\<lparr>sensor_index := j\<rparr>)"
proof -
  let ?st0 = "st\<lparr>sensor_dict := AList.update s ([] @ [m]) (sensor_dict st)\<rparr>"
  let ?n = "length (sensor_list st)"
  have look: "map_of (sensor_dict st) s = Some []" using assms by (rule calm_lookup)
  obtain p where p: "p < ?n" "sensor_list st ! p = s"
    using assms(2) by (auto simp: in_set_conv_nth)
  then obtain i where i: "i < ?n" "(sensor_index st + 1 + i) mod ?n = p"
    using round_reaches by blast
  have ne: "sensor_list st \<noteq> []" using assms(2) by auto
  have others: "\<forall>c\<in>set (sensor_list ?st0). c \<noteq> s \<longrightarrow> map_of (sensor_dict ?st0) c = Some []"
    using assms(1) by (simp add: update_conv' calm_lookup)
  have "\<exists>j<?n. scan ?n ?st0 = Returns (Some (s, m)) (?st0\<lparr>sensor_index := j, sensor_dict := AList.update s [] (sensor_dict ?st0)\<rparr>)"
    by (rule scan_finds[where i=i]) (use assms(1) others i p ne in \<open>simp_all add: calm_def update_conv'\<close>)
  moreover have "AList.update s [] (sensor_dict st) = sensor_dict st"
    using look by (rule update_triv)
  ultimately show ?thesis using look by (auto simp: round_robin_sensor_def)
qed

lemma publish_ros_msg_calm:
  assumes "calm st" "s \<in> set (sensor_list st)"
  shows "\<exists>j. node_of (publish_ros_msg st s m) =
     st\<lparr>sensor_index := j,
        sink := (if s \<noteq> [] \<and> s \<in> set (ros_publishers st) then sink st @ [(s, Element m)] else sink st)\<rparr>"
proof -
  obtain j where j: "round_robin_sensor st s m = Returns (Some (s, m)) (st\<lparr>sensor_index := j\<rparr>)"
    using submit_calm[OF assms] by blast
  have rr: "round_robin st = []" using assms(1) by (simp add: calm_def)
  show ?thesis
    using j rr by (intro exI[of _ j]) (simp add: publish_ros_msg_def publish_def evict_quiet)
qed

lemma publish_ros_msg_miss:
  assumes "calm st" "s \<notin> set (sensor_list st)"
  shows "node_of (publish_ros_msg st s m) = st"
  using calm_miss[OF assms] by (simp add: publish_ros_msg_def round_robin_sensor_def)

subsection \<open>The state between two calls\<close>

lemma update_all_empty:
  "\<forall>kq\<in>set al. snd kq = [] \<Longrightarrow> \<forall>kq\<in>set (AList.update k [] al). snd kq = []"
  by (induction al) auto

lemma foldl_add_sensor:
  "round_robin (foldl add_sensor st ss) = round_robin st"
  "sensor_list (foldl add_sensor st ss) = sensor_list st @ ss"
  "fst ` set (sensor_dict (foldl add_sensor st ss)) = fst ` set (sensor_dict st) \<union> set ss"
  "fst ` set (sensor_active (foldl add_sensor st ss)) = fst ` set (sensor_active st) \<union> set ss"
  "ros_publishers (foldl add_sensor st ss) = ros_publishers st"
  "sink (foldl add_sensor st ss) = sink st"
  "request (foldl add_sensor st ss) = request st"
  by (induction ss arbitrary: st) (auto simp: add_sensor_def dom_update)

lemma foldl_add_sensor_empty:
  "\<forall>kq\<in>set (sensor_dict st). snd kq = [] \<Longrightarrow>
     \<forall>kq\<in>set (sensor_dict (foldl add_sensor st ss)). snd kq = []"
proof (induction ss arbitrary: st)
  case Nil
  then show ?case by simp
next
  case (Cons s ss)
  have "\<forall>kq\<in>set (sensor_dict (add_sensor st s)). snd kq = []"
    using update_all_empty[OF Cons.prems, of s] by (simp add: add_sensor_def)
  then show ?case using Cons.IH by simp
qed

lemma init_request_calm: "calm (init_request req)"
proof -
  have "\<forall>kq\<in>set (sensor_dict (init_request req)). snd kq = []"
    unfolding init_request_def by (rule foldl_add_sensor_empty) simp
  moreover have "round_robin (init_request req) = []"
    "set (sensor_list (init_request req)) = fst ` set (sensor_dict (init_request req))"
    unfolding init_request_def by (simp_all add: foldl_add_sensor)
  ultimately show ?thesis unfolding calm_def by blast
qed

lemma init_request_facts:
  "sensor_list (init_request req) = sensor_id req"
  "fst ` set (sensor_active (init_request req)) = set (sensor_id req)"
  "ros_publishers (init_request req) = []"
  "sink (init_request req) = []"
  "request (init_request req) = req"
  unfolding init_request_def
  by (simp_all add: foldl_add_sensor)

lemma step_calm:
  assumes "calm st"
  shows "calm (step st ev) \<and> sensor_list (step st ev) = sensor_list st \<and>
         request (step st ev) = request st \<and> sensor_dict (step st ev) = sensor_dict st"
proof (cases ev)
  case (Advertise s)
  then show ?thesis using assms by (simp add: advertise_def calm_def)
next
  case (Submit s m)
  show ?thesis
  proof (cases "s \<in> set (sensor_list st)")
    case True
    then obtain j where "node_of (publish_ros_msg st s m) =
     st\<lparr>sensor_index := j,
        sink := (if s \<noteq> [] \<and> s \<in> set (ros_publishers st) then sink st @ [(s, Element m)] else sink st)\<rparr>"
      using publish_ros_msg_calm[OF assms] by blast
    then show ?thesis using assms Submit by (simp add: calm_def)
  next
    case False
    then show ?thesis using publish_ros_msg_miss[OF assms] assms Submit by simp
  qed
next
  case (Finish s)
  then show ?thesis using assms by (simp add: finish_def calm_def)
qed

lemma run_calm:
  "calm st \<Longrightarrow> calm (run st evs) \<and> sensor_list (run st evs) = sensor_list st \<and>
     request (run st evs) = request st \<and> sensor_dict (run st evs) = sensor_dict st"
  unfolding run_def
proof (induction evs arbitrary: st)
  case Nil
  then show ?case by simp
next
  case (Cons ev evs)
  then show ?case using step_calm[of st ev] by simp
qed

lemma run_sink:
  assumes "calm st" "workers ss adv evs" "set ss \<subseteq> set (sensor_list st)"
    "set adv \<subseteq> set (ros_publishers st)"
  shows "sink (run st evs) = sink st @ submissions evs"
  using assms unfolding run_def
proof (induction evs arbitrary: st adv)
  case Nil
  then show ?case by simp
next
  case (Cons ev evs)
  have c: "calm (step st ev)" "sensor_list (step st ev) = sensor_list st"
    using step_calm[OF Cons.prems(1)] by simp_all
  show ?case
  proof (cases ev)
    case (Advertise s)
    have "sink (foldl step (step st ev) evs) = sink (step st ev) @ submissions evs"
      by (rule Cons.IH[where adv="s # adv"])
         (use c Cons.prems Advertise in \<open>auto simp: advertise_def\<close>)
    then show ?thesis using Advertise by (simp add: advertise_def)
  next
    case (Submit s m)
    then have s: "s \<in> set (sensor_list st)" "s \<noteq> []" "s \<in> set (ros_publishers st)"
      using Cons.prems by auto
    obtain j where j: "step st ev = st\<lparr>sensor_index := j, sink := sink st @ [(s, Element m)]\<rparr>"
      using publish_ros_msg_calm[OF Cons.prems(1) s(1), of m] s Submit by auto
    have "sink (foldl step (step st ev) evs) = sink (step st ev) @ submissions evs"
      by (rule Cons.IH[where adv=adv]) (use c Cons.prems Submit j in auto)
    then show ?thesis using Submit j by simp
  next
    case (Finish s)
    have "sink (foldl step (step st ev) evs) = sink (step st ev) @ submissions evs"
      by (rule Cons.IH[where adv=adv]) (use c Cons.prems Finish in \<open>auto simp: finish_def\<close>)
    then show ?thesis using Finish by (simp add: finish_def)
  qed
qed

lemma queued_calm: "calm st \<Longrightarrow> queued st = 0"
  by (auto simp: calm_def queued_def)

lemma flush_body_calm:
  assumes "calm st" "sensor_list st \<noteq> []"
  shows "flush_body ma tr (None, None, f) st =
     Returns (None, None, f + 1) (st\<lparr>sensor_index := (sensor_index st + 1) mod length (sensor_list st)\<rparr>)"
proof -
  let ?c = "sensor_list st ! ((sensor_index st + 1) mod length (sensor_list st))"
  have "?c \<in> set (sensor_list st)" using assms(2) by simp
  then have "map_of (sensor_dict st) ?c = Some []" using assms(1) calm_lookup by blast
  then show ?thesis by (simp add: flush_body_def Let_def)
qed

lemma flush_loop_calm:
  assumes "calm st" "sensor_list st \<noteq> []"
  shows "\<exists>j. flush_loop ma tr k (None, None, f) st = Returns () (st\<lparr>sensor_index := j\<rparr>)"
  using assms
proof (induction k arbitrary: st f)
  case 0
  have "st\<lparr>sensor_index := sensor_index st\<rparr> = st" by simp
  then show ?case by (metis flush_loop.simps(1))
next
  case (Suc k)
  let ?st1 = "st\<lparr>sensor_index := (sensor_index st + 1) mod length (sensor_list st)\<rparr>"
  have b: "flush_body ma tr (None, None, f) st = Returns (None, None, f + 1) ?st1"
    using Suc.prems by (rule flush_body_calm)
  have "calm ?st1" "sensor_list ?st1 \<noteq> []" using Suc.prems by (simp_all add: calm_def)
  then obtain j where "flush_loop ma tr k (None, None, f + 1) ?st1 = Returns () (?st1\<lparr>sensor_index := j\<rparr>)"
    using Suc.IH by blast
  then show ?case using b by auto
qed

lemma flush_sensors_calm:
  assumes "calm st"
  shows "\<exists>j. flush_sensors ma tr st = Returns () (st\<lparr>sensor_index := j\<rparr>)"
proof (cases "sensor_list st = []")
  case True
  have "st\<lparr>sensor_index := sensor_index st\<rparr> = st" by simp
  then show ?thesis using True by (metis flush_sensors_def flush_loop.simps(1) list.size(3))
next
  case False
  then show ?thesis using assms flush_loop_calm by (simp add: flush_sensors_def)
qed



subsection \<open>A call that runs alone\<close>

text \<open>
  Run with no switch, the statements of a call do what \<open>publish_ros_msg\<close> does: the same
  node, and the end that the outcome tells.
\<close>

lemma solo_add: "solo (a + b) st p = (case solo a st p of (st1, p1) \<Rightarrow> solo b st1 p1)"
  by (induction a arbitrary: st p) (auto split: prod.splits)

lemma solo_scan:
  "\<exists>n. solo n st (At_advance k) =
     (case scan k st of
        Raises e st1 \<Rightarrow> (st1, Swallowed e)
      | Returns r st1 \<Rightarrow> (st1, At_publish r))"
proof (induction k arbitrary: st)
  case 0
  have "solo (Suc 0) st (At_advance 0) = (st, At_publish None)" by simp
  then show ?case by (metis scan.simps(1) outcome.simps(5))
next
  case (Suc k)
  define st1 where "st1 = st\<lparr>sensor_index := (sensor_index st + 1) mod length (sensor_list st)\<rparr>"
  define c where "c = sensor_list st1 ! sensor_index st1"
  have two: "solo (Suc (Suc 0)) st (At_advance (Suc k)) = (st1, At_skip k c)"
    by (simp add: st1_def c_def)
  obtain n where n: "solo n st1 (At_advance k) =
     (case scan k st1 of
        Raises e st2 \<Rightarrow> (st2, Swallowed e)
      | Returns r st2 \<Rightarrow> (st2, At_publish r))"
    using Suc.IH by blast
  have after: "\<And>m. solo (Suc (Suc 0) + m) st (At_advance (Suc k)) = solo m st1 (At_skip k c)"
    using two by (simp only: solo_add) simp
  show ?case
  proof (cases "skip_test st1 c")
    case (Inl e)
    then have "scan (Suc k) st = Raises e st1"
      by (simp add: scan_body_def Let_def st1_def c_def)
    moreover have "solo (Suc (Suc 0) + Suc 0) st (At_advance (Suc k)) = (st1, Swallowed e)"
      using Inl by (simp only: after) simp
    ultimately show ?thesis by (metis outcome.simps(6))
  next
    case (Inr b)
    show ?thesis
    proof (cases b)
      case True
      then have "scan (Suc k) st = scan k st1"
        using Inr by (simp add: scan_body_def Let_def st1_def c_def)
      moreover have "solo (Suc (Suc 0) + (Suc 0 + n)) st (At_advance (Suc k)) =
          solo n st1 (At_advance k)"
        using Inr True by (simp only: after) simp
      ultimately show ?thesis using n by metis
    next
      case False
      show ?thesis
      proof (cases "map_of (sensor_dict st1) c")
        case None
        then have "scan (Suc k) st = Raises KeyError st1"
          using Inr False by (simp add: scan_body_def Let_def st1_def c_def)
        moreover have "solo (Suc (Suc 0) + Suc (Suc 0)) st (At_advance (Suc k)) =
            (st1, Swallowed KeyError)"
          using Inr False None by (simp only: after) simp
        ultimately show ?thesis by (metis outcome.simps(6))
      next
        case (Some q)
        show ?thesis
        proof (cases q)
          case Nil
          then have "scan (Suc k) st = scan k st1"
            using Inr False Some by (simp add: scan_body_def Let_def st1_def c_def)
          moreover have "solo (Suc (Suc 0) + (Suc (Suc 0) + n)) st (At_advance (Suc k)) =
              solo n st1 (At_advance k)"
            using Inr False Some Nil by (simp only: after) simp
          ultimately show ?thesis using n by metis
        next
          case (Cons m q')
          then have "scan (Suc k) st =
              Returns (Some (c, m)) (st1\<lparr>sensor_dict := AList.update c q' (sensor_dict st1)\<rparr>)"
            using Inr False Some by (simp add: scan_body_def Let_def st1_def c_def)
          moreover have "solo (Suc (Suc 0) + Suc (Suc (Suc 0))) st (At_advance (Suc k)) =
              (st1\<lparr>sensor_dict := AList.update c q' (sensor_dict st1)\<rparr>, At_publish (Some (c, m)))"
            using Inr False Some Cons by (simp only: after) simp
          ultimately show ?thesis by (metis outcome.simps(5))
        qed
      qed
    qed
  qed
qed

lemma solo_halts:
  "solo n st Returned = (st, Returned)" "solo n st (Swallowed e) = (st, Swallowed e)"
  by (induction n) simp_all

lemma solo_evict: "solo (Suc 0) st At_evict = (node_of (evict st), ending (evict st))"
  by (cases "evict st") simp_all

lemma solo_publish:
  "solo (Suc (Suc 0)) st (At_publish r) =
     (case r of
        None \<Rightarrow> (node_of (evict st), ending (evict st))
      | Some (c, m) \<Rightarrow>
          if c \<noteq> [] then
            (case publish st c (Element m) of
               Inl e \<Rightarrow> (st, Swallowed e)
             | Inr st2 \<Rightarrow> (node_of (evict st2), ending (evict st2)))
          else (node_of (evict st), ending (evict st)))"
  by (cases r) (auto split: sum.splits outcome.splits)

lemma solo_publish_ros_msg:
  "\<exists>n. solo n st (At_append s msg) =
     (node_of (publish_ros_msg st s msg), ending (publish_ros_msg st s msg))"
proof (cases "map_of (sensor_dict st) s")
  case None
  then have "solo (Suc 0) st (At_append s msg) = (st, Swallowed KeyError)" by simp
  moreover have "publish_ros_msg st s msg = Raises KeyError st"
    using None by (simp add: publish_ros_msg_def round_robin_sensor_def)
  ultimately show ?thesis by (metis node_of.simps(2) ending.simps(2))
next
  case (Some q)
  define st0 where "st0 = st\<lparr>sensor_dict := AList.update s (q @ [msg]) (sensor_dict st)\<rparr>"
  define k where "k = length (sensor_list st)"
  have rr: "round_robin_sensor st s msg = scan k st0"
    using Some by (simp add: round_robin_sensor_def st0_def k_def)
  have first: "\<And>m. solo (Suc 0 + m) st (At_append s msg) = solo m st0 (At_advance k)"
    using Some by (simp add: st0_def k_def)
  obtain n where n: "solo n st0 (At_advance k) =
     (case scan k st0 of
        Raises e st1 \<Rightarrow> (st1, Swallowed e)
      | Returns r st1 \<Rightarrow> (st1, At_publish r))"
    using solo_scan by blast
  show ?thesis
  proof (cases "scan k st0")
    case (Raises e st1)
    then have "publish_ros_msg st s msg = Raises e st1"
      using rr by (simp add: publish_ros_msg_def)
    moreover have "solo (Suc 0 + n) st (At_append s msg) = (st1, Swallowed e)"
      using n Raises by (simp only: first) simp
    ultimately show ?thesis by (metis node_of.simps(2) ending.simps(2))
  next
    case (Returns r st1)
    have "solo (n + Suc (Suc 0)) st0 (At_advance k) = solo (Suc (Suc 0)) st1 (At_publish r)"
      unfolding solo_add n Returns by simp
    then have "solo (Suc 0 + (n + Suc (Suc 0))) st (At_append s msg) =
        solo (Suc (Suc 0)) st1 (At_publish r)"
      using first [of "n + Suc (Suc 0)"] by simp
    moreover have "solo (Suc (Suc 0)) st1 (At_publish r) =
        (node_of (publish_ros_msg st s msg), ending (publish_ros_msg st s msg))"
      using rr Returns
      by (simp only: solo_publish)
         (auto simp: publish_ros_msg_def split: option.splits sum.splits outcome.splits)
    ultimately show ?thesis by metis
  qed
qed

lemma interleave_solo:
  "interleave st [p] (replicate n 0) = (case solo n st p of (st1, p1) \<Rightarrow> (st1, [p1]))"
  unfolding interleave_def
  by (induction n arbitrary: st p) (auto simp: switch_def split: prod.splits)

lemma alone_is_publish_ros_msg:
  "\<exists>n. interleave st [At_append s msg] (replicate n 0) =
     (node_of (publish_ros_msg st s msg), [ending (publish_ros_msg st s msg)])"
proof -
  from solo_publish_ros_msg [of st s msg]
  obtain n where "solo n st (At_append s msg) =
     (node_of (publish_ros_msg st s msg), ending (publish_ros_msg st s msg))" ..
  then have "interleave st [At_append s msg] (replicate n 0) =
     (node_of (publish_ros_msg st s msg), [ending (publish_ros_msg st s msg)])"
    by (simp add: interleave_solo)
  then show ?thesis by blast
qed

subsection \<open>Delivery over a session\<close>

lemma race_start_eq:
  "race_start =
     \<lparr>request = demo_request,
      sensor_dict = [(''cam'', []), (''lidar'', [])],
      sensor_list = [''cam'', ''lidar''],
      sensor_active = [(''cam'', True), (''lidar'', True)],
      sensor_index = 0,
      round_robin = [],
      ros_publishers = [''cam'', ''lidar''],
      sink = []\<rparr>"
  by (simp add: race_start_def advertise_def init_request_def add_sensor_def demo_request_def)

text \<open>
  Claim C1 says that every message a worker submits through \<^verbatim>\<open>__publish_ros_msg\<close> is
  published exactly once over the whole session, dispatch plus flush. The worker threads
  run with no lock. When the camera worker and the lidar worker are inside their calls
  together, both can read the camera as candidate and find its queue non-empty; the
  camera worker pops and publishes its message, the pop of the lidar worker raises
  \<^verbatim>\<open>IndexError\<close>, which its handler swallows, and the message of the lidar stays queued.
  The flush, which is there to deliver what is still queued, pops it and raises at the
  attribute read, so the message is never published; and were the queued elements
  wrappers with a \<^verbatim>\<open>msg\<close> attribute, the flush would publish it twice.
\<close>

theorem race_loses_submitted_message:
  "interleave race_start [At_append ''cam'' 1, At_append ''lidar'' 2] race_schedule =
     (race_end, [Returned, Swallowed IndexError]) \<and>
   flush_sensors (\<lambda>_. None) (\<lambda>_. True) (finish (finish race_end ''cam'') ''lidar'') =
     Raises AttributeError
       (race_end\<lparr>sensor_dict := [(''cam'', []), (''lidar'', [])],
          sensor_active := [(''cam'', False), (''lidar'', False)], sensor_index := 1\<rparr>) \<and>
   flush_sensors Some (\<lambda>_. True) (finish (finish race_end ''cam'') ''lidar'') =
     Returns ()
       (race_end\<lparr>sensor_dict := [(''cam'', []), (''lidar'', [])],
          sensor_active := [(''cam'', False), (''lidar'', False)], sensor_index := 0,
          sink := [(''cam'', Element 1), (''lidar'', Attribute 2), (''lidar'', Attribute 2)]\<rparr>)"
proof -
  have "interleave race_start [At_append ''cam'' 1, At_append ''lidar'' 2] race_schedule =
     (race_end, [Returned, Swallowed IndexError])"
    unfolding race_start_eq
    by (simp add: interleave_def race_schedule_def switch_def race_end_def skip_test_def
        publish_def evict_def is_bus_sensor_def is_sensor_alive_def demo_request_def
        BUS_DATA_TYPE_def)
  moreover have "flush_sensors (\<lambda>_. None) (\<lambda>_. True) (finish (finish race_end ''cam'') ''lidar'') =
     Raises AttributeError
       (race_end\<lparr>sensor_dict := [(''cam'', []), (''lidar'', [])],
          sensor_active := [(''cam'', False), (''lidar'', False)], sensor_index := 1\<rparr>)"
    by (simp add: flush_sensors_def flush_body_def publish_def race_end_def finish_def Let_def)
  moreover have "flush_sensors Some (\<lambda>_. True) (finish (finish race_end ''cam'') ''lidar'') =
     Returns ()
       (race_end\<lparr>sensor_dict := [(''cam'', []), (''lidar'', [])],
          sensor_active := [(''cam'', False), (''lidar'', False)], sensor_index := 0,
          sink := [(''cam'', Element 1), (''lidar'', Attribute 2), (''lidar'', Attribute 2)]\<rparr>)"
    by (simp add: flush_sensors_def flush_body_def publish_def race_end_def finish_def Let_def)
  ultimately show ?thesis by blast
qed

subsection \<open>The skip set\<close>

lemma skip_test_quiet: "round_robin st = [] \<Longrightarrow> skip_test st c = Inr False"
  by (simp add: skip_test_def)

lemma scan_body_plain: "round_robin st = [] \<Longrightarrow> scan_body st = plain_body st"
  by (simp add: scan_body_def plain_body_def skip_test_def Let_def)

lemma plain_body_round_robin:
  "plain_body st = Returns r st1 \<Longrightarrow> round_robin st1 = round_robin st"
  by (auto simp: plain_body_def Let_def split: option.splits list.splits)

lemma scan_plain: "round_robin st = [] \<Longrightarrow> scan k st = plain_scan k st"
proof (induction k arbitrary: st)
  case 0
  then show ?case by simp
next
  case (Suc k)
  have b: "scan_body st = plain_body st" using Suc.prems by (rule scan_body_plain)
  show ?case
  proof (cases "plain_body st")
    case (Returns r st1)
    then have "round_robin st1 = []" using plain_body_round_robin Suc.prems by metis
    then have "scan k st1 = plain_scan k st1" by (rule Suc.IH)
    then show ?thesis using b Returns by (simp split: option.splits)
  next
    case (Raises e st1)
    then show ?thesis using b by simp
  qed
qed

text \<open>
  Claim C5. Throughout every session the skip set (\<^verbatim>\<open>round_robin\<close>) is empty:
  \<^verbatim>\<open>init_request\<close> creates it empty and no call inserts into it. So in every state that
  a session reaches, whatever the calls and their order, and also after the flush, the
  skip test skips no candidate, and \<^verbatim>\<open>__round_robin_sensor\<close> is the plain scan in cursor
  order that pops the first non-empty queue.
\<close>

theorem skip_set_stays_empty:
  "round_robin (run (init_request req :: ('m, 'v) node) evs) = [] \<and>
   round_robin (node_of (flush_sensors msg_attr truthy
      (run (init_request req :: ('m, 'v) node) evs))) = [] \<and>
   skip_test (run (init_request req :: ('m, 'v) node) evs) c = Inr False \<and>
   round_robin_sensor (run (init_request req :: ('m, 'v) node) evs) s msg =
     plain_round_robin_sensor (run (init_request req) evs) s msg"
proof -
  let ?st = "run (init_request req :: ('m, 'v) node) evs"
  have c: "calm ?st" using run_calm init_request_calm by blast
  then have rr: "round_robin ?st = []" by (simp add: calm_def)
  obtain j where "flush_sensors msg_attr truthy ?st = Returns () (?st\<lparr>sensor_index := j\<rparr>)"
    using flush_sensors_calm[OF c] by blast
  then have fl: "round_robin (node_of (flush_sensors msg_attr truthy ?st)) = []"
    using rr by simp
  have "round_robin_sensor ?st s msg = plain_round_robin_sensor ?st s msg"
    using rr by (simp add: round_robin_sensor_def plain_round_robin_sensor_def scan_plain
        split: option.splits)
  then show ?thesis using rr fl skip_test_quiet by blast
qed

theorem skip_set_stays_empty_witness:
  "round_robin (run (init_request demo_request :: (nat, nat) node) demo_events) = [] \<and>
   skip_test (run (init_request demo_request :: (nat, nat) node) demo_events) ''cam'' = Inr False"
  using skip_set_stays_empty [of demo_request demo_events "\<lambda>_. None" "\<lambda>_. True" "''cam''" "''cam''" 0]
  by blast

subsection \<open>One call of the dispatcher\<close>

lemma submissions_append:
  "submissions (evs @ evs') = submissions evs @ submissions evs'"
  by (induction evs rule: submissions.induct) simp_all

lemma workers_append:
  "workers ss adv (evs @ [Submit s m]) \<Longrightarrow> workers ss adv evs \<and> s \<in> set ss \<and> s \<noteq> []"
  by (induction ss adv evs rule: workers.induct) auto

lemma run_publishers:
  assumes "calm st" "workers ss adv (evs @ [Submit s m])" "set adv \<subseteq> set (ros_publishers st)"
  shows "s \<in> set (ros_publishers (run st evs))"
  using assms unfolding run_def
proof (induction evs arbitrary: st adv)
  case Nil
  then show ?case by auto
next
  case (Cons ev evs)
  have c: "calm (step st ev)" using step_calm[OF Cons.prems(1)] by simp
  show ?case
  proof (cases ev)
    case (Advertise a)
    have "s \<in> set (ros_publishers (foldl step (step st ev) evs))"
      by (rule Cons.IH[where adv="a # adv"]) (use c Cons.prems Advertise in \<open>auto simp: advertise_def\<close>)
    then show ?thesis by simp
  next
    case (Submit a m')
    then have a: "a \<in> set ss" "workers ss adv (evs @ [Submit s m])" using Cons.prems by auto
    have "ros_publishers (step st ev) = ros_publishers st"
    proof (cases "a \<in> set (sensor_list st)")
      case True
      then show ?thesis using publish_ros_msg_calm[OF Cons.prems(1) True, of m'] Submit by auto
    next
      case False
      then show ?thesis using publish_ros_msg_miss[OF Cons.prems(1) False] Submit by simp
    qed
    then have "s \<in> set (ros_publishers (foldl step (step st ev) evs))"
      using Cons.IH[OF c a(2)] Cons.prems(3) by simp
    then show ?thesis by simp
  next
    case (Finish a)
    have "s \<in> set (ros_publishers (foldl step (step st ev) evs))"
      by (rule Cons.IH[where adv=adv]) (use c Cons.prems Finish in \<open>auto simp: finish_def\<close>)
    then show ?thesis by simp
  qed
qed

lemma run_active_keys:
  assumes "calm st" "workers ss adv evs" "fst ` set (sensor_active st) \<subseteq> set ss"
  shows "fst ` set (sensor_active (run st evs)) \<subseteq> set ss"
  using assms unfolding run_def
proof (induction evs arbitrary: st adv)
  case Nil
  then show ?case by simp
next
  case (Cons ev evs)
  have c: "calm (step st ev)" using step_calm[OF Cons.prems(1)] by simp
  show ?case
  proof (cases ev)
    case (Advertise a)
    have "fst ` set (sensor_active (foldl step (step st ev) evs)) \<subseteq> set ss"
      by (rule Cons.IH[where adv="a # adv"]) (use c Cons.prems Advertise in \<open>auto simp: advertise_def\<close>)
    then show ?thesis by simp
  next
    case (Submit a m')
    have "sensor_active (step st ev) = sensor_active st"
    proof (cases "a \<in> set (sensor_list st)")
      case True
      then show ?thesis using publish_ros_msg_calm[OF Cons.prems(1) True, of m'] Submit by auto
    next
      case False
      then show ?thesis using publish_ros_msg_miss[OF Cons.prems(1) False] Submit by simp
    qed
    moreover have "workers ss adv evs" using Cons.prems Submit by simp
    ultimately have "fst ` set (sensor_active (foldl step (step st ev) evs)) \<subseteq> set ss"
      using Cons.IH[OF c] Cons.prems(3) by simp
    then show ?thesis by simp
  next
    case (Finish a)
    have "fst ` set (sensor_active (foldl step (step st ev) evs)) \<subseteq> set ss"
      by (rule Cons.IH[where adv=adv]) (use c Cons.prems Finish in \<open>auto simp: finish_def dom_update\<close>)
    then show ?thesis by simp
  qed
qed

lemma live_sensors_total:
  assumes "set ks \<subseteq> fst ` set (data_type (request st))"
    "set ks \<subseteq> fst ` set (sensor_dict st)" "set ks \<subseteq> fst ` set (sensor_active st)"
  shows "\<exists>ls. live_sensors st ks = Inr ls"
  using assms
proof (induction ks)
  case Nil
  then show ?case by simp
next
  case (Cons k ks)
  obtain t q a where "map_of (data_type (request st)) k = Some t"
    "map_of (sensor_dict st) k = Some q" "map_of (sensor_active st) k = Some a"
    using Cons.prems by (metis (no_types, lifting) domD dom_map_of_conv_image_fst list.set_intros(1) subsetD)
  moreover obtain ls where "live_sensors st ks = Inr ls" using Cons by auto
  ultimately show ?case
    by (auto simp: is_bus_sensor_def is_sensor_alive_def split: bool.splits)
qed

text \<open>
  Claim C9, as amended. In every sequence of calls of the workers of a request, taken one
  at a time, each call of \<^verbatim>\<open>__publish_ros_msg\<close> returns after it has popped and published
  exactly one message, and the number of queued messages is zero after it. The message
  published is the one just submitted, on the publisher of the submitting sensor: no
  call publishes a message of another sensor.
\<close>

theorem each_call_publishes_its_message:
  assumes "workers (sensor_id req) [] (evs @ [Submit s msg])"
      and "set (sensor_id req) \<subseteq> fst ` set (data_type req)"
  shows "\<exists>st'. publish_ros_msg (run (init_request req :: ('m, 'v) node) evs) s msg = Returns () st' \<and>
            sink st' = sink (run (init_request req :: ('m, 'v) node) evs) @ [(s, Element msg)] \<and>
            queued st' = 0"
proof -
  let ?st = "run (init_request req :: ('m, 'v) node) evs"
  have w: "workers (sensor_id req) [] evs" "s \<in> set (sensor_id req)" "s \<noteq> []"
    using workers_append[OF assms(1)] by simp_all
  have "calm ?st \<and> sensor_list ?st = sensor_list (init_request req :: ('m, 'v) node) \<and>
     request ?st = request (init_request req :: ('m, 'v) node) \<and>
     sensor_dict ?st = sensor_dict (init_request req :: ('m, 'v) node)"
    by (rule run_calm[OF init_request_calm])
  then have c: "calm ?st" and sl: "sensor_list ?st = sensor_id req" and rq: "request ?st = req"
    by (simp_all add: init_request_facts)
  have pub: "s \<in> set (ros_publishers ?st)"
    by (rule run_publishers[OF init_request_calm assms(1)]) (simp add: init_request_facts)
  have ak: "fst ` set (sensor_active ?st) \<subseteq> set (sensor_id req)"
    by (rule run_active_keys[OF init_request_calm w(1)]) (simp add: init_request_facts)
  have s: "s \<in> set (sensor_list ?st)" using w(2) sl by simp
  obtain j where j: "round_robin_sensor ?st s msg = Returns (Some (s, msg)) (?st\<lparr>sensor_index := j\<rparr>)"
    using submit_calm[OF c s] by blast
  let ?st2 = "?st\<lparr>sensor_index := j, sink := sink ?st @ [(s, Element msg)]\<rparr>"
  have dk: "fst ` set (sensor_dict ?st) = set (sensor_id req)" using c sl by (simp add: calm_def)
  have "\<exists>ls. live_sensors ?st2 (map fst (sensor_active ?st2)) = Inr ls"
  proof (rule live_sensors_total)
    show "set (map fst (sensor_active ?st2)) \<subseteq> fst ` set (data_type (request ?st2))"
      using ak rq assms(2) by simp
    show "set (map fst (sensor_active ?st2)) \<subseteq> fst ` set (sensor_dict ?st2)"
      using ak dk by simp
    show "set (map fst (sensor_active ?st2)) \<subseteq> fst ` set (sensor_active ?st2)"
      by simp
  qed
  then obtain ls where "live_sensors ?st2 (map fst (sensor_active ?st2)) = Inr ls" by blast
  moreover have "round_robin ?st2 = []" using c by (simp add: calm_def)
  ultimately have ev: "evict ?st2 = Returns () ?st2" by (rule evict_quiet_returns[rotated])
  have "publish_ros_msg ?st s msg = Returns () ?st2"
    using j w(3) pub ev by (simp add: publish_ros_msg_def publish_def)
  moreover have "calm ?st2" using c by (simp add: calm_def)
  then have "queued ?st2 = 0" by (rule queued_calm)
  ultimately show ?thesis by simp
qed

theorem each_call_publishes_its_message_witness:
  "workers (sensor_id demo_request) [] (demo_events @ [Submit ''lidar'' 4]) \<and>
   set (sensor_id demo_request) \<subseteq> fst ` set (data_type demo_request) \<and>
   (\<exists>st'. publish_ros_msg (run (init_request demo_request :: (nat, nat) node) demo_events)
              ''lidar'' 4 = Returns () st' \<and>
          sink st' = sink (run (init_request demo_request :: (nat, nat) node) demo_events) @
                       [(''lidar'', Element 4)] \<and>
          queued st' = 0)"
proof -
  have h1: "workers (sensor_id demo_request) [] (demo_events @ [Submit ''lidar'' (4::nat)])"
    by (simp add: demo_request_def demo_events_def)
  have h2: "set (sensor_id demo_request) \<subseteq> fst ` set (data_type demo_request)"
    by (simp add: demo_request_def)
  show ?thesis
    using h1 h2 each_call_publishes_its_message [OF h1 h2] by blast
qed

text \<open>
  The claim as it stands says that the message published by a call may come from another
  sensor than the submitting one. No session of calls taken one at a time has such a call.
\<close>

theorem publish_from_other_sensor_counterexample:
  "\<not> (\<exists>req (evs :: nat event list) s msg c (x :: (nat, nat) sent).
        workers (sensor_id req) [] (evs @ [Submit s msg]) \<and>
        sink (run (init_request req :: (nat, nat) node) (evs @ [Submit s msg])) =
          sink (run (init_request req) evs) @ [(c, x)] \<and> c \<noteq> s)"
proof
  assume "\<exists>req (evs :: nat event list) s msg c (x :: (nat, nat) sent).
        workers (sensor_id req) [] (evs @ [Submit s msg]) \<and>
        sink (run (init_request req :: (nat, nat) node) (evs @ [Submit s msg])) =
          sink (run (init_request req) evs) @ [(c, x)] \<and> c \<noteq> s"
  then obtain req and evs :: "nat event list" and s msg c and x :: "(nat, nat) sent"
    where w: "workers (sensor_id req) [] (evs @ [Submit s msg])"
      and k: "sink (run (init_request req :: (nat, nat) node) (evs @ [Submit s msg])) =
          sink (run (init_request req) evs) @ [(c, x)]" and ne: "c \<noteq> s"
    by blast
  have w': "workers (sensor_id req) [] evs" using workers_append[OF w] by simp
  have "sink (run (init_request req :: (nat, nat) node) (evs @ [Submit s msg])) =
      submissions (evs @ [Submit s msg])"
    using run_sink[OF init_request_calm w, of req] by (simp add: init_request_facts)
  moreover have "sink (run (init_request req :: (nat, nat) node) evs) = submissions evs"
    using run_sink[OF init_request_calm w', of req] by (simp add: init_request_facts)
  ultimately have "c = s" using k by (simp add: submissions_append)
  then show False using ne by simp
qed

subsection \<open>The skip test\<close>




subsection \<open>The flusher on a non-empty queue\<close>

lemma sum_update_pop:
  "map_of al c = Some (x # q) \<Longrightarrow>
     Suc (sum_list (map (\<lambda>(k, q). length q) (AList.update c q al))) =
       sum_list (map (\<lambda>(k, q). length q) al)"
  by (induction al) (auto split: if_splits)

lemma flush_loop_fails:
  assumes "n = length (sensor_list st)" "0 < n" "f + k \<le> n"
    "set (sensor_list st) \<subseteq> fst ` set (sensor_dict st)"
    "\<forall>k q. map_of (sensor_dict st) k = Some q \<longrightarrow> (\<forall>x\<in>set q. msg_attr x = None)"
    "i < k" "map_of (sensor_dict st) (sensor_list st ! ((sensor_index st + 1 + i) mod n)) = Some (m # q)"
  shows "\<exists>st'. flush_loop msg_attr truthy k (None, None, f) st = Raises AttributeError st' \<and>
           sink st' = sink st \<and> Suc (queued st') = queued st"
  using assms
proof (induction k arbitrary: st f i)
  case 0
  then show ?case by simp
next
  case (Suc k)
  let ?st1 = "st\<lparr>sensor_index := (sensor_index st + 1) mod n\<rparr>"
  let ?c = "sensor_list st ! ((sensor_index st + 1) mod n)"
  have "?c \<in> set (sensor_list st)" using Suc.prems(1,2) by simp
  then have "?c \<in> fst ` set (sensor_dict st)" using Suc.prems(4) by blast
  then obtain qc where qc: "map_of (sensor_dict st) ?c = Some qc"
    by (metis domD dom_map_of_conv_image_fst)
  show ?case
  proof (cases qc)
    case Nil
    have body: "flush_body msg_attr truthy (None, None, f) st = Returns (None, None, f + 1) ?st1"
      using qc Nil Suc.prems(1) by (simp add: flush_body_def Let_def)
    have "i \<noteq> 0" using Suc.prems(7) qc Nil by (cases i) auto
    then obtain i' where i': "i = Suc i'" by (cases i) auto
    then have k: "0 < k" using Suc.prems(6) by simp
    then have ne: "n \<noteq> f + 1" using Suc.prems(3) by simp
    have pos: "sensor_list ?st1 ! ((sensor_index ?st1 + 1 + i') mod n) =
        sensor_list st ! ((sensor_index st + 1 + i) mod n)"
      using i' mod_add_left_eq[of "sensor_index st + 1" n "1 + i'"]
      by (simp add: ac_simps)
    have "\<exists>st'. flush_loop msg_attr truthy k (None, None, f + 1) ?st1 = Raises AttributeError st' \<and>
           sink st' = sink ?st1 \<and> Suc (queued st') = queued ?st1"
      by (rule Suc.IH[where i=i'])
         (use Suc.prems i' pos in \<open>simp_all\<close>)
    then show ?thesis using body ne Suc.prems(1) by (simp add: queued_def)
  next
    case (Cons front q')
    have "msg_attr front = None" using Suc.prems(5) qc Cons by auto
    then have "flush_body msg_attr truthy (None, None, f) st =
        Raises AttributeError (?st1\<lparr>sensor_dict := AList.update ?c q' (sensor_dict st)\<rparr>)"
      using qc Cons Suc.prems(1) by (simp add: flush_body_def Let_def)
    moreover have "Suc (queued (?st1\<lparr>sensor_dict := AList.update ?c q' (sensor_dict st)\<rparr>)) = queued st"
      using qc Cons sum_update_pop[of "sensor_dict st" ?c front q'] by (simp add: queued_def)
    ultimately show ?thesis by simp
  qed
qed

text \<open>
  Claim C10. The dispatcher queues the message object itself and publishes the popped
  element; the flusher publishes the \<^verbatim>\<open>msg\<close> attribute of the popped element. So for
  every state in which the queue of some listed sensor is non-empty when the flush
  runs, and whose queued elements are message objects without such an attribute, the
  attribute read fails: \<^verbatim>\<open>__flush_sensors\<close> raises \<^verbatim>\<open>AttributeError\<close>, it has
  published nothing, and the element it popped is lost.
\<close>

theorem flush_field_access_fails:
  assumes "set (sensor_list st) \<subseteq> fst ` set (sensor_dict st)"
      and "\<forall>k q. map_of (sensor_dict st) k = Some q \<longrightarrow> (\<forall>x\<in>set q. msg_attr x = None)"
      and "s \<in> set (sensor_list st)" and "map_of (sensor_dict st) s = Some (m # q)"
  shows "\<exists>st'. flush_sensors msg_attr truthy st = Raises AttributeError st' \<and>
           sink st' = sink st \<and> Suc (queued st') = queued st"
proof -
  let ?n = "length (sensor_list st)"
  obtain p where p: "p < ?n" "sensor_list st ! p = s"
    using assms(3) by (auto simp: in_set_conv_nth)
  then obtain i where i: "i < ?n" "(sensor_index st + 1 + i) mod ?n = p"
    using round_reaches by blast
  have n: "0 < ?n" using assms(3) by (cases "sensor_list st") auto
  show ?thesis
    unfolding flush_sensors_def
    by (rule flush_loop_fails[where i=i and n="?n" and m=m and q=q])
       (use assms n i p in simp_all)
qed

theorem flush_field_access_fails_witness:
  "set (sensor_list backlog) \<subseteq> fst ` set (sensor_dict backlog) \<and>
   ''cam'' \<in> set (sensor_list backlog) \<and>
   map_of (sensor_dict backlog) ''cam'' = Some (1 # [2]) \<and>
   (\<exists>st'. flush_sensors (\<lambda>_. None) (\<lambda>_. True) backlog = Raises AttributeError st' \<and>
      sink st' = sink backlog \<and> Suc (queued st') = queued backlog)"
proof -
  have h1: "set (sensor_list backlog) \<subseteq> fst ` set (sensor_dict backlog)"
    by (simp add: backlog_def)
  have h2: "\<forall>k q. map_of (sensor_dict backlog) k = Some q \<longrightarrow>
      (\<forall>x\<in>set q. (\<lambda>_. None :: nat option) x = None)"
    by simp
  have h3: "''cam'' \<in> set (sensor_list backlog)" by (simp add: backlog_def)
  have h4: "map_of (sensor_dict backlog) ''cam'' = Some (1 # [2])" by (simp add: backlog_def)
  show ?thesis
    using h1 h3 h4 flush_field_access_fails [OF h1 h2 h3 h4, of "\<lambda>_. True"] by blast
qed

text \<open>
  Claim C2 says that one call of the flusher leaves every queue empty. The loop makes one
  pass of at most one pop per sensor. With two messages in the queue of the camera, the
  attribute read raises after the first pop and the second message stays queued; and were
  the queued elements wrappers with a \<^verbatim>\<open>msg\<close> attribute, the pass would end with the
  second message still queued and the first published twice, since \<^verbatim>\<open>sensor\<close> and
  \<^verbatim>\<open>msg\<close> keep their values when the next queue is empty.
\<close>

theorem flush_leaves_messages_queued:
  "flush_sensors (\<lambda>_. None) (\<lambda>_. True) backlog =
     Raises AttributeError
       (backlog\<lparr>sensor_index := 0, sensor_dict := [(''cam'', [2]), (''lidar'', [])]\<rparr>) \<and>
   flush_sensors Some (\<lambda>_. True) backlog =
     Returns ()
       (backlog\<lparr>sensor_index := 1, sensor_dict := [(''cam'', [2]), (''lidar'', [])],
          sink := [(''cam'', Attribute 1), (''cam'', Attribute 1)]\<rparr>)"
  by (simp add: flush_sensors_def flush_body_def publish_def backlog_def Let_def)

section \<open>Properties of the sensor workers\<close>

subsection \<open>Preview\<close>

lemma manifest_loop_preview:
  "length (batches (manifest_loop body (Some True) mf)) \<le> Suc 0"
  by (induction body "Some True :: bool option" mf rule: manifest_loop.induct)
     (auto split: prod.splits option.splits)

text \<open>
  Claim C8. For every request with \<^verbatim>\<open>preview\<close> true and every manifest, of any length,
  each of the five worker loops (images and point clouds from the file system and from
  the object store, and bus rows) processes at most one batch of the manifest; the
  assignment that marks the sensor inactive stands after the loop.
\<close>

theorem preview_one_batch:
  assumes "preview req = Some True"
  shows "length (batches (publish_images_from_fs c cfg req s frame_id mf)) \<le> 1 \<and>
         length (batches (publish_images_from_s3 c cfg req s frame_id mf)) \<le> 1 \<and>
         length (batches (publish_pcl_from_fs c cfg req s frame_id mf)) \<le> 1 \<and>
         length (batches (publish_pcl_from_s3 c cfg req s frame_id mf)) \<le> 1 \<and>
         length (batches (publish_bus c req frame_id mf)) \<le> 1"
  using assms
  by (simp add: publish_images_from_fs_def publish_images_from_s3_def publish_pcl_from_fs_def
      publish_pcl_from_s3_def publish_bus_def manifest_loop_preview split: sum.splits)

theorem preview_one_batch_witness:
  "preview preview_request = Some True \<and>
   length (batches (publish_images_from_fs demo_collab demo_config preview_request
      ''cam'' ''map'' three_batches)) \<le> 1 \<and>
   length (batches (publish_pcl_from_s3 demo_collab demo_config preview_request
      ''lidar'' ''map'' three_batches)) \<le> 1 \<and>
   batches (publish_bus demo_collab preview_request ''map'' three_batches) = [[1, 2]]"
proof -
  have h: "preview preview_request = Some True" by (simp add: preview_request_def)
  have "batches (publish_bus demo_collab preview_request ''map'' three_batches) = [[1, 2]]"
    by (simp add: publish_bus_def three_batches_def preview_request_def bus_batch_def
        bus_row_def swallow_def demo_collab_def)
  then show ?thesis
    using h preview_one_batch [OF h, of demo_collab demo_config "''cam''" "''map''" three_batches]
      preview_one_batch [OF h, of demo_collab demo_config "''lidar''" "''map''" three_batches]
    by blast
qed

subsection \<open>The NaN test\<close>

lemma pcl_fs_records_nan_test:
  assumes "\<forall>x\<in>set loaded. parse_pcl_npz c view mat (fst x) = Inr (dec x)"
  shows "pcl_fs_records c view mat frame_id loaded =
     (concat (map (\<lambda>x. if isnan_any (points (dec x)) then []
                          else publish_pcl_msg c (dec x) (snd x) frame_id) loaded), None)"
  using assms by (induction loaded) auto

lemma process_s3_pcl_files_nan_test:
  assumes "\<forall>f\<in>set files. resp_get c f = Inr (path f) \<and> np_load c (path f) = Inr (npz f) \<and>
      entry_ts c f = Inr (ts f) \<and> parse_pcl_npz c view mat (npz f) = Inr (dec f)"
  shows "process_s3_pcl_files c view mat frame_id files =
     concat (map (\<lambda>f. if isnan_any (points (dec f)) then []
                          else publish_pcl_msg c (dec f) (ts f) frame_id) files)"
  using assms by (induction files) (auto simp: process_s3_pcl_files_def s3_pcl_file_def swallow_def)

lemma concat_skip:
  assumes "\<forall>x\<in>set xs. \<not> bad x \<longrightarrow> g x = [mk x]"
  shows "concat (map (\<lambda>x. if bad x then [] else g x) xs) = map mk (filter (\<lambda>x. \<not> bad x) xs)"
  using assms by (induction xs) auto

text \<open>
  Claim C7. For the decoded point clouds of a batch, in the file-system mode and in the
  object-store mode alike: a cloud with a NaN coordinate is never submitted to the
  dispatcher, and a cloud without one is always submitted. The messages submitted are
  those of the clouds without NaN, in the order of the batch. (A cloud counts as decoded
  when its parse succeeds, and its message is the one \<^verbatim>\<open>pcl_dense_msg\<close> builds.)
\<close>

theorem nan_clouds_never_submitted:
  assumes "\<forall>x\<in>set loaded. parse_pcl_npz c view mat (fst x) = Inr (dec x)"
      and "\<forall>x\<in>set loaded. \<not> isnan_any (points (dec x)) \<longrightarrow>
             pcl_dense_msg c (dec x) (snd x) frame_id = Inr (mk x)"
      and "\<forall>f\<in>set files. resp_get c f = Inr (path f) \<and> np_load c (path f) = Inr (npz f) \<and>
             entry_ts c f = Inr (ts f) \<and> parse_pcl_npz c view mat (npz f) = Inr (dec' f)"
      and "\<forall>f\<in>set files. \<not> isnan_any (points (dec' f)) \<longrightarrow>
             pcl_dense_msg c (dec' f) (ts f) frame_id = Inr (mk' f)"
  shows "pcl_fs_records c view mat frame_id loaded =
           (map mk (filter (\<lambda>x. \<not> isnan_any (points (dec x))) loaded), None) \<and>
         process_s3_pcl_files c view mat frame_id files =
           map mk' (filter (\<lambda>f. \<not> isnan_any (points (dec' f))) files)"
proof -
  have "concat (map (\<lambda>x. if isnan_any (points (dec x)) then []
                          else publish_pcl_msg c (dec x) (snd x) frame_id) loaded) =
        map mk (filter (\<lambda>x. \<not> isnan_any (points (dec x))) loaded)"
    by (rule concat_skip) (use assms(2) in \<open>simp add: publish_pcl_msg_def\<close>)
  moreover have "concat (map (\<lambda>f. if isnan_any (points (dec' f)) then []
                          else publish_pcl_msg c (dec' f) (ts f) frame_id) files) =
        map mk' (filter (\<lambda>f. \<not> isnan_any (points (dec' f))) files)"
    by (rule concat_skip) (use assms(4) in \<open>simp add: publish_pcl_msg_def\<close>)
  ultimately show ?thesis
    using pcl_fs_records_nan_test[OF assms(1), of frame_id]
      process_s3_pcl_files_nan_test[OF assms(3), of frame_id]
    by simp
qed

theorem nan_clouds_never_submitted_witness:
  "pcl_fs_records demo_collab ''camera'' None ''map'' [(5, 5), (7, 7), (6, 6)] = ([5, 6], None) \<and>
   process_s3_pcl_files demo_collab ''camera'' None ''map'' [5, 7, 6] = [5, 6]"
proof -
  have h1: "\<forall>x\<in>set [(5, 5), (7, 7), (6::nat, 6::int)].
      parse_pcl_npz demo_collab ''camera'' None (fst x) = Inr (demo_cloud (fst x))"
    by (simp add: demo_collab_def)
  have h2: "\<forall>x\<in>set [(5, 5), (7, 7), (6::nat, 6::int)]. \<not> isnan_any (points (demo_cloud (fst x))) \<longrightarrow>
      pcl_dense_msg demo_collab (demo_cloud (fst x)) (snd x) ''map'' = Inr (nat (snd x))"
    by (simp add: demo_collab_def)
  have h3: "\<forall>f\<in>set [5, 7, 6::nat]. resp_get demo_collab f = Inr (replicate f CHR ''x'') \<and>
      np_load demo_collab (replicate f CHR ''x'') = Inr f \<and>
      entry_ts demo_collab f = Inr (int f) \<and>
      parse_pcl_npz demo_collab ''camera'' None f = Inr (demo_cloud f)"
    by (simp add: demo_collab_def)
  have h4: "\<forall>f\<in>set [5, 7, 6::nat]. \<not> isnan_any (points (demo_cloud f)) \<longrightarrow>
      pcl_dense_msg demo_collab (demo_cloud f) (int f) ''map'' = Inr f"
    by (simp add: demo_collab_def)
  show ?thesis
    using nan_clouds_never_submitted [OF h1 h2 h3 h4]
    by (simp add: demo_cloud_def isnan_any_def)
qed

subsection \<open>An error that escapes a worker\<close>

lemma scan_body_active:
  "sensor_active (node_of (scan_body st)) = sensor_active st"
  by (simp add: scan_body_def Let_def split: sum.splits bool.splits option.splits list.splits)

lemma scan_active: "sensor_active (node_of (scan k st)) = sensor_active st"
proof (induction k arbitrary: st)
  case 0
  then show ?case by simp
next
  case (Suc k)
  show ?case
  proof (cases "scan_body st")
    case (Returns r st1)
    then have a: "sensor_active st1 = sensor_active st" using scan_body_active[of st] by simp
    show ?thesis
    proof (cases r)
      case None
      then show ?thesis using Returns a Suc.IH[of st1] by simp
    next
      case (Some found)
      then show ?thesis using Returns a by simp
    qed
  next
    case (Raises e st1)
    then show ?thesis using scan_body_active[of st] by simp
  qed
qed

lemma evict_active: "sensor_active (node_of (evict st)) = sensor_active st"
  by (simp add: evict_def split: sum.splits)

lemma publish_ros_msg_active:
  "sensor_active (node_of (publish_ros_msg st s m)) = sensor_active st"
proof (cases "map_of (sensor_dict st) s")
  case None
  then show ?thesis by (simp add: publish_ros_msg_def round_robin_sensor_def)
next
  case (Some q)
  let ?st0 = "st\<lparr>sensor_dict := AList.update s (q @ [m]) (sensor_dict st)\<rparr>"
  have r: "round_robin_sensor st s m = scan (length (sensor_list st)) ?st0"
    using Some by (simp add: round_robin_sensor_def)
  have a: "sensor_active (node_of (scan (length (sensor_list st)) ?st0)) = sensor_active st"
    using scan_active[of "length (sensor_list st)" ?st0] by simp
  show ?thesis
  proof (cases "scan (length (sensor_list st)) ?st0")
    case (Returns found st1)
    then have a1: "sensor_active st1 = sensor_active st" using a by simp
    show ?thesis
      using r Returns a1 evict_active[of st1]
      by (auto simp: publish_ros_msg_def publish_def evict_active split: option.splits)
  next
    case (Raises e st1)
    then show ?thesis using r a by (simp add: publish_ros_msg_def)
  qed
qed

lemma run_submits_active:
  "sensor_active (run st (map (Submit s) ms)) = sensor_active st"
  unfolding run_def
  by (induction ms arbitrary: st) (simp_all add: publish_ros_msg_active)

text \<open>
  Claim C6, as amended. When an unexpected error escapes the loop of a worker (a manifest
  fetch that raises, for one), the worker stops: \<^verbatim>\<open>__publish_sensor\<close> logs and swallows
  the error, and the calls the worker has made are its submissions up to the error and
  nothing else. The active flag of its sensor is left as it was, and so are the flags of
  all other sensors, in whatever state the node is.
\<close>

theorem failed_worker_stays_active:
  assumes "sensor_run c cfg req s frame_id mf = Some r" and "escaped r = Some e"
  shows "publish_sensor c cfg req s frame_id mf = map (Submit s) (concat (batches r)) \<and>
         sensor_active (run st (publish_sensor c cfg req s frame_id mf)) = sensor_active st"
  using assms by (simp add: publish_sensor_def worker_events_def run_submits_active)

theorem failed_worker_stays_active_witness:
  "sensor_run demo_collab demo_config bus_request ''bus'' ''map'' broken_manifest =
     Some \<lparr>batches = [[2]], escaped = Some Failure\<rparr> \<and>
   publish_sensor demo_collab demo_config bus_request ''bus'' ''map'' broken_manifest =
     [Submit ''bus'' 2] \<and>
   sensor_active (run (init_request bus_request :: (nat, nat) node)
      (publish_sensor demo_collab demo_config bus_request ''bus'' ''map'' broken_manifest)) =
     [(''cam'', True), (''bus'', True)]"
proof -
  let ?st = "init_request bus_request :: (nat, nat) node"
  have h: "sensor_run demo_collab demo_config bus_request ''bus'' ''map'' broken_manifest =
     Some \<lparr>batches = [[2]], escaped = Some Failure\<rparr>"
    by (simp add: sensor_run_def bus_request_def dict_get_def BUS_DATA_TYPE_def publish_bus_def
        broken_manifest_def bus_batch_def bus_row_def swallow_def demo_collab_def)
  have sa: "sensor_active ?st = [(''cam'', True), (''bus'', True)]"
    by (simp add: init_request_def add_sensor_def bus_request_def)
  have e: "escaped \<lparr>batches = [[2::nat]], escaped = Some Failure\<rparr> = Some Failure" by simp
  note t = failed_worker_stays_active [OF h e, of ?st]
  have a: "publish_sensor demo_collab demo_config bus_request ''bus'' ''map''
      broken_manifest = [Submit ''bus'' 2]"
    using t by simp
  have b: "sensor_active (run ?st
      (publish_sensor demo_collab demo_config bus_request ''bus'' ''map'' broken_manifest)) =
     sensor_active ?st"
    using t by blast
  show ?thesis using h a b [unfolded sa] by blast
qed

text \<open>
  The claim as it stands says that the worker marks its sensor inactive. A bus worker
  whose second fetch raises ends with the flag of its sensor still true.
\<close>

theorem failed_worker_not_marked_inactive_counterexample:
  "sensor_run demo_collab demo_config bus_request ''bus'' ''map'' broken_manifest =
     Some \<lparr>batches = [[2]], escaped = Some Failure\<rparr> \<and>
   map_of (sensor_active (run (init_request bus_request :: (nat, nat) node)
      (Advertise ''bus'' #
       publish_sensor demo_collab demo_config bus_request ''bus'' ''map'' broken_manifest)))
     ''bus'' = Some True"
proof -
  let ?st = "advertise (init_request bus_request :: (nat, nat) node) ''bus''"
  have h: "sensor_run demo_collab demo_config bus_request ''bus'' ''map'' broken_manifest =
     Some \<lparr>batches = [[2]], escaped = Some Failure\<rparr>"
    by (simp add: sensor_run_def bus_request_def dict_get_def BUS_DATA_TYPE_def publish_bus_def
        broken_manifest_def bus_batch_def bus_row_def swallow_def demo_collab_def)
  then have p: "publish_sensor demo_collab demo_config bus_request ''bus'' ''map''
      broken_manifest = map (Submit ''bus'') [2]"
    by (simp add: publish_sensor_def worker_events_def)
  have "run (init_request bus_request :: (nat, nat) node)
      (Advertise ''bus'' #
       publish_sensor demo_collab demo_config bus_request ''bus'' ''map'' broken_manifest) =
     run ?st (map (Submit ''bus'') [2])"
    by (simp only: p run_def foldl_Cons step.simps)
  then have "sensor_active (run (init_request bus_request :: (nat, nat) node)
      (Advertise ''bus'' #
       publish_sensor demo_collab demo_config bus_request ''bus'' ''map'' broken_manifest)) =
     sensor_active ?st"
    by (simp only: run_submits_active)
  moreover have "sensor_active ?st = [(''cam'', True), (''bus'', True)]"
    by (simp add: advertise_def init_request_def add_sensor_def bus_request_def)
  ultimately show ?thesis using h by simp
qed

subsection \<open>A record that fails to convert\<close>

text \<open>
  Claim C4 says that a conversion failure of one record is caught and the worker goes on
  with the rest of the batch, in both modes. In the object-store mode it is so; in the
  file-system mode the parse of a point cloud stands outside the \<^verbatim>\<open>try\<close>: with a batch
  of two archives, the first of which does not parse, the file-system worker ends with
  the error and submits nothing, while the object-store worker skips the first archive
  and submits the second.
\<close>

theorem fs_parse_failure_ends_worker:
  "publish_pcl_from_fs demo_collab demo_config demo_request ''lidar'' ''map'' [Batch [0, 5]] =
     \<lparr>batches = [[]], escaped = Some Failure\<rparr> \<and>
   publish_pcl_from_s3 demo_collab demo_config demo_request ''lidar'' ''map'' [Batch [0, 5]] =
     \<lparr>batches = [[5]], escaped = None\<rparr>"
  by (simp add: publish_pcl_from_fs_def publish_pcl_from_s3_def vehicle_transform_for_def
      lidar_view_of_def demo_request_def pcl_fs_batch_def pcl_s3_batch_def
      process_s3_pcl_files_def s3_pcl_file_def swallow_def publish_pcl_msg_def
      demo_collab_def demo_cloud_def isnan_any_def)

end
